theory Spec2Isabelle
  imports Complex_Main
begin

section \<open>LightGCN: a shallow embedding of the notebook's code\<close>

text \<open>
  The notebook \<^verbatim>\<open>LightGCN.ipynb\<close> defines the model class \<^verbatim>\<open>LightGCN\<close>, the objective
  \<^verbatim>\<open>bpr_loss\<close>, the class \<^verbatim>\<open>EarlyStopping\<close>, the metrics and \<^verbatim>\<open>evaluate_model\<close>, and the
  training loop. Tensors of floats are modelled over the reals (exact arithmetic, no
  rounding and no overflow); the places where the float operations of numpy and torch can
  leave the finite numbers (a division by zero, a power of zero, the mean of nothing) are
  modelled with the type \<open>npfloat\<close> below. Python exceptions are values of the type
  \<open>error\<close>.
\<close>

datatype error = ValueError | IndexError | RuntimeError | ZeroDivisionError | KeyError

subsection \<open>EarlyStopping\<close>

text \<open>
  \<^verbatim>\<open>
  class EarlyStopping:
      def __init__(self, patience=config['patience'], delta=0.0, verbose=True):
          self.patience = patience
          self.delta = delta
          self.verbose = verbose
          self.best_score = None
          self.counter = 0
          self.early_stop = False

      def __call__(self, current_score):
          if self.best_score is None or current_score > self.best_score + self.delta:
              self.best_score = current_score
              self.counter = 0
          else:
              self.counter += 1
  \<close>
\<close>

record EarlyStopping =
  patience :: int
  delta :: real
  verbose :: bool
  best_score :: "real option"
  counter :: int
  early_stop :: bool

definition EarlyStopping_init :: "int \<Rightarrow> real \<Rightarrow> bool \<Rightarrow> EarlyStopping" where
  "EarlyStopping_init p d v =
     \<lparr>patience = p, delta = d, verbose = v, best_score = None, counter = 0,
      early_stop = False\<rparr>"

definition improved :: "EarlyStopping \<Rightarrow> real \<Rightarrow> bool" where
  "improved self current_score =
     (case best_score self of
        None \<Rightarrow> True
      | Some b \<Rightarrow> current_score > b + delta self)"

definition call :: "EarlyStopping \<Rightarrow> real \<Rightarrow> EarlyStopping" where
  "call self current_score =
     (if improved self current_score
      then self\<lparr>best_score := Some current_score, counter := 0\<rparr>
      else self\<lparr>counter := counter self + 1\<rparr>)"

text \<open>
  The epoch loop of \<^verbatim>\<open>train_lightgcn\<close>, with the training and the evaluation of an epoch
  replaced by the recall they produce (one per epoch, in order):
  \<^verbatim>\<open>
      early_stopping = EarlyStopping(patience=patience)
      for epoch in range(epochs):
          ...
          recall = recall_all[k]
          early_stopping(recall)
          if early_stopping.early_stop:
              print(f"Early stopping at epoch {epoch + 1}")
              break
  \<close>
  The result is the controller after the loop and the number of epochs that ran.
\<close>

fun epoch_loop :: "EarlyStopping \<Rightarrow> real list \<Rightarrow> EarlyStopping \<times> nat" where
  "epoch_loop es [] = (es, 0)"
| "epoch_loop es (recall # recalls) =
     (let es' = call es recall
      in if early_stop es' then (es', 1)
         else (case epoch_loop es' recalls of (es'', n) \<Rightarrow> (es'', Suc n)))"

definition train_lightgcn_epochs :: "int \<Rightarrow> real list \<Rightarrow> EarlyStopping \<times> nat" where
  "train_lightgcn_epochs p recalls = epoch_loop (EarlyStopping_init p 0 True) recalls"

subsection \<open>train_one_epoch\<close>

text \<open>
  \<^verbatim>\<open>
  def train_one_epoch(model, optimizer, user_item_dict, all_items, batch_size, device):
      ...
      total_loss = 0
      num_batches = len(users_tensor) // batch_size + 1

      for start in range(0, len(users_tensor), batch_size):
          end = start + batch_size
          batch_users = users_tensor[start:end]
          batch_pos = pos_tensor[start:end]
          batch_neg = neg_tensor[start:end]

          loss = bpr_loss(model, batch_users, batch_pos, batch_neg)

          optimizer.zero_grad()
          loss.backward()
          optimizer.step()
          total_loss += loss.item()

      return total_loss / num_batches
  \<close>
  The sampled and shuffled triples are the argument \<open>samples\<close> (the sampling is random).
  The loss of a batch and the optimizer's update of the parameters are the parameter
  \<open>step\<close>, from the training state and a batch to \<open>loss.item()\<close> and the next state: the
  optimizer is torch's. The loop is \<open>batch_loop\<close>; for a batch size below 1 the range is
  empty.
\<close>

function batch_loop ::
  "('s \<Rightarrow> 'a list \<Rightarrow> real \<times> 's) \<Rightarrow> 'a list \<Rightarrow> nat \<Rightarrow> nat \<Rightarrow> 's \<Rightarrow> real \<Rightarrow> real \<times> 's"
where
  "batch_loop step samples batch_size start st total_loss =
     (if batch_size = 0 \<or> length samples \<le> start then (total_loss, st)
      else (let end = start + batch_size;
                batch = take (end - start) (drop start samples)
            in case step st batch of
                 (loss, st') \<Rightarrow> batch_loop step samples batch_size end st' (total_loss + loss)))"
  by pat_completeness auto
termination
  by (relation "measure (\<lambda>(step, samples, batch_size, start, st, total_loss).
        length samples - start)") auto

definition train_one_epoch ::
  "('s \<Rightarrow> 'a list \<Rightarrow> real \<times> 's) \<Rightarrow> 's \<Rightarrow> 'a list \<Rightarrow> int \<Rightarrow> error + (real \<times> 's)"
where
  "train_one_epoch step st samples batch_size =
     (if batch_size = 0 then Inl ZeroDivisionError
      else (let num_batches = int (length samples) div batch_size + 1
            in case batch_loop step samples (nat batch_size) 0 st 0 of
                 (total_loss, st') \<Rightarrow>
                   if num_batches = 0 then Inl ZeroDivisionError
                   else Inr (total_loss / real_of_int num_batches, st')))"

text \<open>The batches the loop visits, and their number \<open>\<lceil>N / batch_size\<rceil>\<close>.\<close>

function batches :: "'a list \<Rightarrow> nat \<Rightarrow> nat \<Rightarrow> 'a list list" where
  "batches samples batch_size start =
     (if batch_size = 0 \<or> length samples \<le> start then []
      else take batch_size (drop start samples) # batches samples batch_size (start + batch_size))"
  by pat_completeness auto
termination
  by (relation "measure (\<lambda>(samples, batch_size, start). length samples - start)") auto

subsection \<open>Floats that can leave the finite numbers\<close>

text \<open>
  A float of numpy or torch is a finite number, an infinity or NaN. Finite values are
  computed exactly; the operations follow IEEE 754 where an operand is not finite or a
  divisor is zero (there is no negative zero: every zero divisor below is a count).
\<close>

datatype npfloat = Fin real | PInf | NInf | NaN

fun fadd :: "npfloat \<Rightarrow> npfloat \<Rightarrow> npfloat" where
  "fadd (Fin a) (Fin b) = Fin (a + b)"
| "fadd NaN _ = NaN"
| "fadd _ NaN = NaN"
| "fadd PInf NInf = NaN"
| "fadd NInf PInf = NaN"
| "fadd PInf _ = PInf"
| "fadd _ PInf = PInf"
| "fadd NInf _ = NInf"
| "fadd _ NInf = NInf"

definition inf_of_sign :: "real \<Rightarrow> npfloat" where
  "inf_of_sign a = (if a = 0 then NaN else if 0 < a then PInf else NInf)"

fun fmul :: "npfloat \<Rightarrow> npfloat \<Rightarrow> npfloat" where
  "fmul (Fin a) (Fin b) = Fin (a * b)"
| "fmul NaN _ = NaN"
| "fmul _ NaN = NaN"
| "fmul (Fin a) PInf = inf_of_sign a"
| "fmul (Fin a) NInf = inf_of_sign (- a)"
| "fmul PInf (Fin b) = inf_of_sign b"
| "fmul NInf (Fin b) = inf_of_sign (- b)"
| "fmul PInf PInf = PInf"
| "fmul PInf NInf = NInf"
| "fmul NInf PInf = NInf"
| "fmul NInf NInf = PInf"

fun fdiv :: "npfloat \<Rightarrow> npfloat \<Rightarrow> npfloat" where
  "fdiv (Fin a) (Fin b) = (if b = 0 then inf_of_sign a else Fin (a / b))"
| "fdiv NaN _ = NaN"
| "fdiv _ NaN = NaN"
| "fdiv (Fin a) _ = Fin 0"
| "fdiv PInf (Fin b) = (if 0 \<le> b then PInf else NInf)"
| "fdiv NInf (Fin b) = (if 0 \<le> b then NInf else PInf)"
| "fdiv _ _ = NaN"

definition fsum :: "npfloat list \<Rightarrow> npfloat" where
  "fsum xs = foldl fadd (Fin 0) xs"

text \<open>\<^verbatim>\<open>np.power(x, -0.5)\<close>: infinite at zero, NaN below it.\<close>

fun np_power_neg_half :: "npfloat \<Rightarrow> npfloat" where
  "np_power_neg_half (Fin x) =
     (if 0 < x then Fin (x powr (- 1 / 2)) else if x = 0 then PInf else NaN)"
| "np_power_neg_half PInf = Fin 0"
| "np_power_neg_half NInf = NaN"
| "np_power_neg_half NaN = NaN"

definition is_finite :: "npfloat \<Rightarrow> bool" where
  "is_finite x = (case x of Fin _ \<Rightarrow> True | _ \<Rightarrow> False)"

subsection \<open>scipy's sparse matrices\<close>

text \<open>
  A sparse matrix is its shape and its stored entries, one value for an index (scipy adds
  up the duplicates of a coordinate list); an index with no stored entry reads as zero.
  \<open>coo_matrix\<close> is the constructor \<^verbatim>\<open>coo_matrix((data, (rows, cols)), shape=...)\<close>, which
  raises \<^verbatim>\<open>ValueError\<close> for an index outside the shape. The sum and the product of two
  matrices are those of matrices of fitting shapes: all matrices of \<open>build_adj_matrix\<close>
  are \<open>num_nodes \<times> num_nodes\<close>.
\<close>

record spmatrix =
  shape :: "nat \<times> nat"
  stored :: "nat \<times> nat \<Rightarrow> npfloat option"

definition entry :: "spmatrix \<Rightarrow> nat \<times> nat \<Rightarrow> npfloat" where
  "entry M ij = (case stored M ij of None \<Rightarrow> Fin 0 | Some v \<Rightarrow> v)"

definition coo_matrix :: "npfloat list \<Rightarrow> (nat \<times> nat) list \<Rightarrow> nat \<times> nat \<Rightarrow> error + spmatrix" where
  "coo_matrix data ijs shp =
     (if length data \<noteq> length ijs then Inl ValueError
      else if \<not> list_all (\<lambda>ij. fst ij < fst shp \<and> snd ij < snd shp) ijs then Inl ValueError
      else Inr \<lparr>shape = shp,
                stored = (\<lambda>ij. let vs = map fst (filter (\<lambda>d. snd d = ij) (zip data ijs))
                                in if vs = [] then None else Some (fsum vs))\<rparr>)"

definition sp_transpose :: "spmatrix \<Rightarrow> spmatrix" where
  "sp_transpose M = \<lparr>shape = (snd (shape M), fst (shape M)), stored = (\<lambda>ij. stored M (snd ij, fst ij))\<rparr>"

fun add_stored :: "npfloat option \<Rightarrow> npfloat option \<Rightarrow> npfloat option" where
  "add_stored (Some v) (Some w) = Some (fadd v w)"
| "add_stored (Some v) None = Some v"
| "add_stored None w = w"

definition sp_add :: "spmatrix \<Rightarrow> spmatrix \<Rightarrow> spmatrix" where
  "sp_add A B = \<lparr>shape = shape A, stored = (\<lambda>ij. add_stored (stored A ij) (stored B ij))\<rparr>"

text \<open>\<^verbatim>\<open>M.sum(1)\<close>, flattened: the sums of the rows.\<close>

definition sum1 :: "spmatrix \<Rightarrow> npfloat list" where
  "sum1 M = map (\<lambda>i. fsum (List.map_filter (\<lambda>j. stored M (i, j)) [0..<snd (shape M)]))
              [0..<fst (shape M)]"

text \<open>\<^verbatim>\<open>A @ B\<close>: only stored entries meet.\<close>

definition spmm :: "spmatrix \<Rightarrow> spmatrix \<Rightarrow> spmatrix" where
  "spmm A B =
     \<lparr>shape = (fst (shape A), snd (shape B)),
      stored = (\<lambda>ij. let ps = concat (map (\<lambda>k. case (stored A (fst ij, k), stored B (k, snd ij)) of
                                                  (Some x, Some y) \<Rightarrow> [fmul x y]
                                                | _ \<Rightarrow> [])
                                          [0..<snd (shape A)])
                      in if ps = [] then None else Some (fsum ps))\<rparr>"

subsection \<open>LightGCN.build_adj_matrix\<close>

text \<open>
  \<^verbatim>\<open>
  def build_adj_matrix(self, user_item_pairs):
      num_nodes = self.num_users + self.num_items
      rows = user_item_pairs[0].cpu().numpy()
      cols = user_item_pairs[1].cpu().numpy() + self.num_users
      R = coo_matrix((np.ones(len(rows)), (rows, cols)), shape=(num_nodes, num_nodes))
      adj = R + R.T
      rowsum = np.array(adj.sum(1)).flatten()
      d_inv_sqrt = np.power(rowsum + 1e-8, -0.5)
      d_mat_inv_sqrt = coo_matrix((d_inv_sqrt, (np.arange(num_nodes), np.arange(num_nodes))),
                                  shape=(num_nodes, num_nodes))
      norm_adj = d_mat_inv_sqrt @ adj @ d_mat_inv_sqrt
      return self._convert_sp_mat_to_sp_tensor(norm_adj)
  \<close>
  \<open>user_item_pairs\<close> is a tensor of two rows, here the list of its columns
  \<open>(user, item)\<close>. \<open>sym_adj\<close> is the function up to \<open>adj\<close>. The conversion to a torch
  tensor at the end keeps shape, indices and values (as 32-bit floats) and is left out.
\<close>

definition sym_adj :: "nat \<Rightarrow> nat \<Rightarrow> (nat \<times> nat) list \<Rightarrow> error + spmatrix" where
  "sym_adj n_users n_items user_item_pairs =
     (let num_nodes = n_users + n_items;
          rows = map fst user_item_pairs;
          cols = map (\<lambda>p. snd p + n_users) user_item_pairs
      in case coo_matrix (replicate (length rows) (Fin 1)) (zip rows cols) (num_nodes, num_nodes) of
           Inl e \<Rightarrow> Inl e
         | Inr R \<Rightarrow> Inr (sp_add R (sp_transpose R)))"

definition build_adj_matrix :: "nat \<Rightarrow> nat \<Rightarrow> (nat \<times> nat) list \<Rightarrow> error + spmatrix" where
  "build_adj_matrix n_users n_items user_item_pairs =
     (let num_nodes = n_users + n_items
      in case sym_adj n_users n_items user_item_pairs of
           Inl e \<Rightarrow> Inl e
         | Inr adj \<Rightarrow>
             (let rowsum = sum1 adj;
                  d_inv_sqrt = map (\<lambda>x. np_power_neg_half (fadd x (Fin (1 / 100000000)))) rowsum
              in case coo_matrix d_inv_sqrt (zip [0..<num_nodes] [0..<num_nodes])
                        (num_nodes, num_nodes) of
                   Inl e \<Rightarrow> Inl e
                 | Inr d_mat_inv_sqrt \<Rightarrow>
                     Inr (spmm (spmm d_mat_inv_sqrt adj) d_mat_inv_sqrt)))"

text \<open>
  The degree of a node in the symmetric graph: the interaction pairs whose user is the
  node and those whose item (shifted by the number of users) is.
\<close>

definition degree :: "nat \<Rightarrow> (nat \<times> nat) list \<Rightarrow> nat \<Rightarrow> nat" where
  "degree n_users user_item_pairs a =
     length (filter (\<lambda>p. fst p = a) user_item_pairs)
     + length (filter (\<lambda>p. snd p + n_users = a) user_item_pairs)"

definition edges :: "nat \<Rightarrow> (nat \<times> nat) list \<Rightarrow> (nat \<times> nat) list" where
  "edges n_users user_item_pairs = map (\<lambda>p. (fst p, snd p + n_users)) user_item_pairs"

text \<open>The edges of the symmetric graph that touch a node.\<close>

definition edges_touching :: "nat \<Rightarrow> (nat \<times> nat) list \<Rightarrow> nat \<Rightarrow> (nat \<times> nat) set" where
  "edges_touching n_users user_item_pairs a =
     {e \<in> set (edges n_users user_item_pairs). fst e = a \<or> snd e = a}"

definition in_range :: "nat \<Rightarrow> nat \<Rightarrow> (nat \<times> nat) list \<Rightarrow> bool" where
  "in_range n_users n_items user_item_pairs =
     list_all (\<lambda>p. fst p < n_users \<and> snd p < n_items) user_item_pairs"

text \<open>
  How often the symmetric graph has the edge between two nodes, and the value of
  \<open>d_inv_sqrt\<close> at a node of that degree.
\<close>

definition edge_count :: "nat \<Rightarrow> (nat \<times> nat) list \<Rightarrow> nat \<Rightarrow> nat \<Rightarrow> nat" where
  "edge_count n_users user_item_pairs a b =
     count_list (edges n_users user_item_pairs) (a, b)
     + count_list (edges n_users user_item_pairs) (b, a)"

definition dinv :: "nat \<Rightarrow> (nat \<times> nat) list \<Rightarrow> nat \<Rightarrow> real" where
  "dinv n_users user_item_pairs a =
     (real (degree n_users user_item_pairs a) + 1 / 100000000) powr (- 1 / 2)"


subsection \<open>The class LightGCN\<close>

text \<open>
  A dense tensor of two dimensions is the list of its rows, one of three dimensions the
  list of its slices along dimension 0. The adjacency \<open>norm_adj\<close> is a torch sparse
  tensor: its size and its value at an index (zero where nothing is stored).
  \<^verbatim>\<open>__init__\<close> stores its arguments, creates the two embedding tables of
  \<open>embedding_dim\<close> columns (filled at random) and the adjacency of
  \<open>num_users + num_items\<close> rows and columns: \<open>wf_model\<close> states these shapes, which torch
  checks at every operation below.
\<close>

type_synonym tensor2 = "real list list"

type_synonym tensor3 = "real list list list"

record sptensor =
  sp_size :: "nat \<times> nat"
  sp_value :: "nat \<times> nat \<Rightarrow> real"

record LightGCN =
  num_users :: nat
  num_items :: nat
  embedding_dim :: nat
  num_layers :: nat
  user_embedding :: tensor2
  item_embedding :: tensor2
  norm_adj :: sptensor

definition wf_model :: "LightGCN \<Rightarrow> bool" where
  "wf_model self =
     (length (user_embedding self) = num_users self
      \<and> length (item_embedding self) = num_items self
      \<and> list_all (\<lambda>row. length row = embedding_dim self) (user_embedding self)
      \<and> list_all (\<lambda>row. length row = embedding_dim self) (item_embedding self)
      \<and> sp_size (norm_adj self) = (num_users self + num_items self, num_users self + num_items self))"

definition ncols :: "'a list list \<Rightarrow> nat" where
  "ncols t = (case t of [] \<Rightarrow> 0 | row # _ \<Rightarrow> length row)"

text \<open>\<^verbatim>\<open>torch.sparse.mm(adj, all_emb)\<close>\<close>

definition sparse_mm :: "sptensor \<Rightarrow> tensor2 \<Rightarrow> tensor2" where
  "sparse_mm adj x =
     map (\<lambda>i. map (\<lambda>j. \<Sum>k\<leftarrow>[0..<length x]. sp_value adj (i, k) * x ! k ! j) [0..<ncols x])
       [0..<fst (sp_size adj)]"

text \<open>
  The loop of both propagation methods, on the current embedding and the list so far:
  \<^verbatim>\<open>
      for _ in range(self.num_layers):
          all_emb = torch.sparse.mm(adj, all_emb)
          embs.append(all_emb)
  \<close>
\<close>

fun propagate :: "sptensor \<Rightarrow> nat \<Rightarrow> tensor2 \<Rightarrow> tensor2 list \<Rightarrow> tensor2 list" where
  "propagate adj 0 all_emb embs = embs"
| "propagate adj (Suc n) all_emb embs =
     (let all_emb' = sparse_mm adj all_emb in propagate adj n all_emb' (embs @ [all_emb']))"

text \<open>
  \<^verbatim>\<open>torch.stack(ts, dim=0)\<close> of \<open>L\<close> tensors \<open>N \<times> D\<close> is the tensor \<open>L \<times> N \<times> D\<close> of the
  list itself, \<^verbatim>\<open>torch.stack(ts, dim=1)\<close> the tensor \<open>N \<times> L \<times> D\<close>. \<^verbatim>\<open>mean(0)\<close> and
  \<^verbatim>\<open>torch.mean(_, dim=1)\<close> average a tensor of three dimensions over its first and over
  its second dimension.
\<close>

definition stack_dim0 :: "tensor2 list \<Rightarrow> tensor3" where
  "stack_dim0 ts = ts"

definition stack_dim1 :: "tensor2 list \<Rightarrow> tensor3" where
  "stack_dim1 ts = (case ts of [] \<Rightarrow> [] | t # _ \<Rightarrow> map (\<lambda>i. map (\<lambda>t'. t' ! i) ts) [0..<length t])"

definition mean_dim0 :: "tensor3 \<Rightarrow> tensor2" where
  "mean_dim0 T =
     (case T of
        [] \<Rightarrow> []
      | t # _ \<Rightarrow>
          map (\<lambda>i. map (\<lambda>j. (\<Sum>l\<leftarrow>[0..<length T]. T ! l ! i ! j) / real (length T)) [0..<ncols t])
            [0..<length t])"

definition mean_dim1 :: "tensor3 \<Rightarrow> tensor2" where
  "mean_dim1 T =
     map (\<lambda>m. map (\<lambda>j. (\<Sum>l\<leftarrow>[0..<length m]. m ! l ! j) / real (length m)) [0..<ncols m]) T"

text \<open>
  \<^verbatim>\<open>
  def getEmbedding(self):
      all_emb = torch.cat([self.user_embedding.weight, self.item_embedding.weight])
      embs = [all_emb]
      adj = self.norm_adj
      for _ in range(self.num_layers):
          all_emb = torch.sparse.mm(adj, all_emb)
          embs.append(all_emb)
      embs = torch.stack(embs, dim=1)
      light_out = torch.mean(embs, dim=1)
      user_emb, item_emb = light_out[:self.num_users], light_out[self.num_users:]
      return user_emb, item_emb
  \<close>
\<close>

definition getEmbedding :: "LightGCN \<Rightarrow> tensor2 \<times> tensor2" where
  "getEmbedding self =
     (let all_emb = user_embedding self @ item_embedding self;
          embs = propagate (norm_adj self) (num_layers self) all_emb [all_emb];
          embs' = stack_dim1 embs;
          light_out = mean_dim1 embs'
      in (take (num_users self) light_out, drop (num_users self) light_out))"

text \<open>
  \<^verbatim>\<open>
  def forward(self):
      emb = torch.cat([self.user_embedding.weight, self.item_embedding.weight], dim=0)
      all_embs = [emb]
      adj = self.norm_adj
      for _ in range(self.num_layers):
          emb = torch.sparse.mm(adj, emb)
          all_embs.append(emb)
      final_emb = torch.stack(all_embs, dim=0).mean(0)
      user_emb, item_emb = final_emb[:self.num_users], final_emb[self.num_users:]
      return user_emb, item_emb
  \<close>
\<close>

definition forward :: "LightGCN \<Rightarrow> tensor2 \<times> tensor2" where
  "forward self =
     (let emb = user_embedding self @ item_embedding self;
          all_embs = propagate (norm_adj self) (num_layers self) emb [emb];
          final_emb = mean_dim0 (stack_dim0 all_embs)
      in (take (num_users self) final_emb, drop (num_users self) final_emb))"

text \<open>
  Indexing the rows of a tensor with a tensor of ids, as \<^verbatim>\<open>user_emb[users]\<close> and
  \<^verbatim>\<open>self.user_embedding(users)\<close> do: an id outside the tensor raises \<^verbatim>\<open>IndexError\<close>. (Ids
  are natural numbers: the data has no negative id.)
\<close>

definition index_rows :: "'a list \<Rightarrow> nat list \<Rightarrow> error + 'a list" where
  "index_rows t ids =
     (if list_all (\<lambda>i. i < length t) ids then Inr (map (\<lambda>i. t ! i) ids) else Inl IndexError)"

text \<open>
  \<^verbatim>\<open>
  def getEmbeddingTriple(self, users, pos_items, neg_items):
      user_emb, item_emb = self.getEmbedding()
      users_emb = user_emb[users]
      pos_emb = item_emb[pos_items]
      neg_emb = item_emb[neg_items]
      users_emb_0 = self.user_embedding(users)
      pos_emb_0 = self.item_embedding(pos_items)
      neg_emb_0 = self.item_embedding(neg_items)
      return users_emb, pos_emb, neg_emb, users_emb_0, pos_emb_0, neg_emb_0
  \<close>
\<close>

definition getEmbeddingTriple ::
  "LightGCN \<Rightarrow> nat list \<Rightarrow> nat list \<Rightarrow> nat list
     \<Rightarrow> error + (tensor2 \<times> tensor2 \<times> tensor2 \<times> tensor2 \<times> tensor2 \<times> tensor2)" where
  "getEmbeddingTriple self users pos_items neg_items =
     (case getEmbedding self of (user_emb, item_emb) \<Rightarrow>
      case index_rows user_emb users of Inl e \<Rightarrow> Inl e | Inr users_emb \<Rightarrow>
      case index_rows item_emb pos_items of Inl e \<Rightarrow> Inl e | Inr pos_emb \<Rightarrow>
      case index_rows item_emb neg_items of Inl e \<Rightarrow> Inl e | Inr neg_emb \<Rightarrow>
      case index_rows (user_embedding self) users of Inl e \<Rightarrow> Inl e | Inr users_emb_0 \<Rightarrow>
      case index_rows (item_embedding self) pos_items of Inl e \<Rightarrow> Inl e | Inr pos_emb_0 \<Rightarrow>
      case index_rows (item_embedding self) neg_items of Inl e \<Rightarrow> Inl e | Inr neg_emb_0 \<Rightarrow>
        Inr (users_emb, pos_emb, neg_emb, users_emb_0, pos_emb_0, neg_emb_0))"

subsection \<open>bpr_loss\<close>

text \<open>
  \<^verbatim>\<open>
  def bpr_loss(model, users, pos_items, neg_items):
      users_emb, pos_emb, neg_emb, user_emb_0, pos_emb_0, neg_emb_0 = \
          model.getEmbeddingTriple(users.long(), pos_items.long(), neg_items.long())
      pos_scores = torch.sum(users_emb * pos_emb, dim=1)
      neg_scores = torch.sum(users_emb * neg_emb, dim=1)
      loss = torch.mean(F.softplus(neg_scores - pos_scores))
      reg_loss = config['reg_lambda'] * (user_emb_0.norm(2).pow(2) + pos_emb_0.norm(2).pow(2)
                                         + neg_emb_0.norm(2).pow(2)) / users.shape[0]
      return loss + reg_loss
  \<close>
  An operation on two tensors pairs their rows; torch broadcasts a tensor of one row and
  raises \<^verbatim>\<open>RuntimeError\<close> for other lengths that differ. The mean of a tensor and the
  division by \<^verbatim>\<open>users.shape[0]\<close> are float divisions: by zero they give NaN or an infinity
  and raise nothing.
\<close>

definition broadcast2 :: "('a \<Rightarrow> 'b \<Rightarrow> 'c) \<Rightarrow> 'a list \<Rightarrow> 'b list \<Rightarrow> error + 'c list" where
  "broadcast2 f xs ys =
     (if length xs = length ys then Inr (map2 f xs ys)
      else if length xs = 1 then Inr (map (f (hd xs)) ys)
      else if length ys = 1 then Inr (map (\<lambda>x. f x (hd ys)) xs)
      else Inl RuntimeError)"

definition dot :: "real list \<Rightarrow> real list \<Rightarrow> real" where
  "dot u v = sum_list (map2 (*) u v)"

text \<open>\<^verbatim>\<open>F.softplus\<close> with its defaults \<^verbatim>\<open>beta=1, threshold=20\<close>.\<close>

definition softplus :: "real \<Rightarrow> real" where
  "softplus x = (if x > 20 then x else ln (1 + exp x))"

definition torch_mean :: "real list \<Rightarrow> npfloat" where
  "torch_mean xs = fdiv (Fin (sum_list xs)) (Fin (real (length xs)))"

definition norm2 :: "tensor2 \<Rightarrow> real" where
  "norm2 t = sqrt (\<Sum>x\<leftarrow>concat t. x\<^sup>2)"

definition config_reg_lambda :: real where
  "config_reg_lambda = 1 / 10000"

definition bpr_loss :: "LightGCN \<Rightarrow> nat list \<Rightarrow> nat list \<Rightarrow> nat list \<Rightarrow> error + npfloat" where
  "bpr_loss model users pos_items neg_items =
     (case getEmbeddingTriple model users pos_items neg_items of
        Inl e \<Rightarrow> Inl e
      | Inr (users_emb, pos_emb, neg_emb, user_emb_0, pos_emb_0, neg_emb_0) \<Rightarrow>
      case broadcast2 dot users_emb pos_emb of Inl e \<Rightarrow> Inl e | Inr pos_scores \<Rightarrow>
      case broadcast2 dot users_emb neg_emb of Inl e \<Rightarrow> Inl e | Inr neg_scores \<Rightarrow>
      case broadcast2 (-) neg_scores pos_scores of Inl e \<Rightarrow> Inl e | Inr diff \<Rightarrow>
        (let loss = torch_mean (map softplus diff);
             reg_loss = fdiv (Fin (config_reg_lambda
                          * ((norm2 user_emb_0)\<^sup>2 + (norm2 pos_emb_0)\<^sup>2 + (norm2 neg_emb_0)\<^sup>2)))
                        (Fin (real (length users)))
         in Inr (fadd loss reg_loss)))"

subsection \<open>The metrics and evaluate_model\<close>

text \<open>
  \<^verbatim>\<open>
  def recall_at_k(ranked_list, ground_truth, k):
      return len(set(ranked_list[:k]) & set(ground_truth)) / len(set(ground_truth))

  def precision_at_k(ranked_list, ground_truth, k):
      return len(set(ranked_list[:k]) & set(ground_truth)) / k

  def ndcg_at_k(ranked_list, ground_truth, k):
      dcg = 0.0
      for i, item in enumerate(ranked_list[:k]):
          if item in ground_truth:
              dcg += 1 / np.log2(i + 2)
      idcg = sum(1 / np.log2(i + 2) for i in range(min(len(ground_truth), k)))
      return dcg / idcg if idcg > 0 else 0.0
  \<close>
  The two quotients are divisions of Python integers, which raise \<^verbatim>\<open>ZeroDivisionError\<close>.
\<close>

definition recall_at_k :: "nat list \<Rightarrow> nat list \<Rightarrow> nat \<Rightarrow> error + real" where
  "recall_at_k ranked_list ground_truth k =
     (if card (set ground_truth) = 0 then Inl ZeroDivisionError
      else Inr (real (card (set (take k ranked_list) \<inter> set ground_truth))
                / real (card (set ground_truth))))"

definition precision_at_k :: "nat list \<Rightarrow> nat list \<Rightarrow> nat \<Rightarrow> error + real" where
  "precision_at_k ranked_list ground_truth k =
     (if k = 0 then Inl ZeroDivisionError
      else Inr (real (card (set (take k ranked_list) \<inter> set ground_truth)) / real k))"

definition ndcg_at_k :: "nat list \<Rightarrow> nat list \<Rightarrow> nat \<Rightarrow> real" where
  "ndcg_at_k ranked_list ground_truth k =
     (let dcg = (\<Sum>p\<leftarrow>enumerate 0 (take k ranked_list).
                   if snd p \<in> set ground_truth then 1 / log 2 (real (fst p + 2)) else 0);
          idcg = (\<Sum>i\<leftarrow>[0..<min (length ground_truth) k]. 1 / log 2 (real (i + 2)))
      in if idcg > 0 then dcg / idcg else 0)"

text \<open>
  The loop body of \<open>evaluate_model\<close> for one user, given the row \<open>batch_user_emb[idx]\<close>:
  \<^verbatim>\<open>
          gt_items = test_ground_truth[user]
          train_items = user_item_dict.get(user, set())
          candidates = list((set(range(model.num_items)) - train_items) | set(gt_items))
          scores = torch.matmul(batch_user_emb[idx], item_emb[candidates].T)
          ranked_items = [candidates[i] for i in torch.topk(scores, k).indices.tolist()]
          recall_list.append(recall_at_k(ranked_items, gt_items, k))
          precision_list.append(precision_at_k(ranked_items, gt_items, k))
          ndcg_list.append(ndcg_at_k(ranked_items, gt_items, k))
  \<close>
  Python lists a set in an order of its own, and \<^verbatim>\<open>torch.topk\<close> breaks ties as it likes:
  here the candidates are listed in ascending order and of equal scores the earlier
  candidate ranks first. \<^verbatim>\<open>torch.topk\<close> raises \<^verbatim>\<open>RuntimeError\<close> when there are fewer than
  \<open>k\<close> scores. \<open>test_ground_truth\<close> is a dictionary from a user to the list of the held-out
  items, here the list of its items in the order of its keys.
\<close>

definition candidates :: "LightGCN \<Rightarrow> nat set \<Rightarrow> nat list \<Rightarrow> nat list" where
  "candidates model train_items gt_items =
     sorted_list_of_set (({0..<num_items model} - train_items) \<union> set gt_items)"

text \<open>
  \<^verbatim>\<open>user_item_dict.get(user, set())\<close>, and the set that the candidate list of a user is
  built from.
\<close>

definition train_items_of :: "(nat \<rightharpoonup> nat set) \<Rightarrow> nat \<Rightarrow> nat set" where
  "train_items_of user_item_dict user =
     (case user_item_dict user of None \<Rightarrow> {} | Some items \<Rightarrow> items)"

definition candidate_pool :: "LightGCN \<Rightarrow> (nat \<rightharpoonup> nat set) \<Rightarrow> nat \<Rightarrow> nat list \<Rightarrow> nat set" where
  "candidate_pool model user_item_dict user gt_items =
     ({0..<num_items model} - train_items_of user_item_dict user) \<union> set gt_items"

definition topk_indices :: "real list \<Rightarrow> nat \<Rightarrow> error + nat list" where
  "topk_indices scores k =
     (if length scores < k then Inl RuntimeError
      else Inr (take k (sort_key (\<lambda>i. - scores ! i) [0..<length scores])))"

definition user_metrics ::
  "LightGCN \<Rightarrow> tensor2 \<Rightarrow> (nat \<times> nat list) list \<Rightarrow> (nat \<rightharpoonup> nat set) \<Rightarrow> nat
     \<Rightarrow> real list \<Rightarrow> nat \<Rightarrow> error + (real \<times> real \<times> real)" where
  "user_metrics model item_emb test_ground_truth user_item_dict k u_emb user =
     (case map_of test_ground_truth user of None \<Rightarrow> Inl KeyError | Some gt_items \<Rightarrow>
        (let train_items = (case user_item_dict user of None \<Rightarrow> {} | Some items \<Rightarrow> items);
             cands = candidates model train_items gt_items
         in case index_rows item_emb cands of Inl e \<Rightarrow> Inl e | Inr rows \<Rightarrow>
            case topk_indices (map (dot u_emb) rows) k of Inl e \<Rightarrow> Inl e | Inr idxs \<Rightarrow>
              (let ranked_items = map (\<lambda>i. cands ! i) idxs
               in case recall_at_k ranked_items gt_items k of Inl e \<Rightarrow> Inl e | Inr recall \<Rightarrow>
                  case precision_at_k ranked_items gt_items k of Inl e \<Rightarrow> Inl e | Inr prec \<Rightarrow>
                    Inr (recall, prec, ndcg_at_k ranked_items gt_items k))))"

text \<open>
  \<^verbatim>\<open>
  def evaluate_model(model, test_ground_truth, user_item_dict, k=20, batch_size=1024, ...):
      ...
          user_emb, item_emb = model()
      recall_list, precision_list, ndcg_list = [], [], []
      test_users = list(test_ground_truth.keys())
      for i in tqdm(range(0, len(test_users), batch_size), desc=desc):
          batch_users = test_users[i:i+batch_size]
          batch_user_emb = user_emb[batch_users]
          for idx, user in enumerate(batch_users):
              ...
      return np.mean(recall_list), np.mean(precision_list), np.mean(ndcg_list)
  \<close>
  \<open>eval_batch\<close> is the inner loop over \<^verbatim>\<open>enumerate(batch_users)\<close>, \<open>eval_batches\<close> the outer
  loop from \<open>i\<close>; both thread the three lists \<open>acc\<close>. \<open>range\<close> raises \<^verbatim>\<open>ValueError\<close> for the step
  0 and is empty for a negative step; \<^verbatim>\<open>np.mean\<close> of an empty list is NaN.
\<close>

type_synonym metric_lists = "real list \<times> real list \<times> real list"

fun eval_batch ::
  "(real list \<Rightarrow> nat \<Rightarrow> error + (real \<times> real \<times> real)) \<Rightarrow> tensor2 \<Rightarrow> (nat \<times> nat) list
     \<Rightarrow> metric_lists \<Rightarrow> error + metric_lists" where
  "eval_batch per_user batch_user_emb [] acc = Inr acc"
| "eval_batch per_user batch_user_emb ((idx, user) # rest) (recall_list, precision_list, ndcg_list) =
     (case per_user (batch_user_emb ! idx) user of
        Inl e \<Rightarrow> Inl e
      | Inr (recall, prec, ndcg) \<Rightarrow>
          eval_batch per_user batch_user_emb rest
            (recall_list @ [recall], precision_list @ [prec], ndcg_list @ [ndcg]))"

function eval_batches ::
  "(real list \<Rightarrow> nat \<Rightarrow> error + (real \<times> real \<times> real)) \<Rightarrow> tensor2 \<Rightarrow> nat \<Rightarrow> nat list \<Rightarrow> nat
     \<Rightarrow> metric_lists \<Rightarrow> error + metric_lists" where
  "eval_batches per_user user_emb batch_size test_users i acc =
     (if batch_size = 0 \<or> length test_users \<le> i then Inr acc
      else (let batch_users = take batch_size (drop i test_users)
            in case index_rows user_emb batch_users of
                 Inl e \<Rightarrow> Inl e
               | Inr batch_user_emb \<Rightarrow>
                   (case eval_batch per_user batch_user_emb (enumerate 0 batch_users) acc of
                      Inl e \<Rightarrow> Inl e
                    | Inr acc' \<Rightarrow>
                        eval_batches per_user user_emb batch_size test_users (i + batch_size) acc')))"
  by pat_completeness auto
termination
  by (relation "measure (\<lambda>(per_user, user_emb, batch_size, test_users, i, acc).
        length test_users - i)") auto

definition np_mean :: "real list \<Rightarrow> npfloat" where
  "np_mean xs = fdiv (Fin (sum_list xs)) (Fin (real (length xs)))"

definition evaluate_model ::
  "LightGCN \<Rightarrow> (nat \<times> nat list) list \<Rightarrow> (nat \<rightharpoonup> nat set) \<Rightarrow> nat \<Rightarrow> int
     \<Rightarrow> error + (npfloat \<times> npfloat \<times> npfloat)" where
  "evaluate_model model test_ground_truth user_item_dict k batch_size =
     (case forward model of (user_emb, item_emb) \<Rightarrow>
        (let test_users = map fst test_ground_truth
         in if batch_size = 0 then Inl ValueError
            else case eval_batches (user_metrics model item_emb test_ground_truth user_item_dict k)
                        user_emb (nat batch_size) test_users 0 ([], [], []) of
                   Inl e \<Rightarrow> Inl e
                 | Inr (recall_list, precision_list, ndcg_list) \<Rightarrow>
                     Inr (np_mean recall_list, np_mean precision_list, np_mean ndcg_list)))"

text \<open>What a call returned, if it returned.\<close>

definition returned :: "error + 'a \<Rightarrow> 'a option" where
  "returned r = (case r of Inl e \<Rightarrow> None | Inr v \<Rightarrow> Some v)"

text \<open>
  The users one by one, with no batches: each user's row is read from \<open>user_emb\<close> itself.
\<close>

fun eval_users ::
  "(real list \<Rightarrow> nat \<Rightarrow> error + (real \<times> real \<times> real)) \<Rightarrow> tensor2 \<Rightarrow> nat list
     \<Rightarrow> metric_lists \<Rightarrow> error + metric_lists" where
  "eval_users per_user user_emb [] acc = Inr acc"
| "eval_users per_user user_emb (user # rest) (recall_list, precision_list, ndcg_list) =
     (if length user_emb \<le> user then Inl IndexError
      else case per_user (user_emb ! user) user of
             Inl e \<Rightarrow> Inl e
           | Inr (recall, prec, ndcg) \<Rightarrow>
               eval_users per_user user_emb rest
                 (recall_list @ [recall], precision_list @ [prec], ndcg_list @ [ndcg]))"

subsection \<open>An example model\<close>

text \<open>
  One user, two items, embeddings of one dimension, one layer, and an adjacency that joins
  the user and the first item with weight 1.
\<close>

definition M0 :: LightGCN where
  "M0 = \<lparr>num_users = 1, num_items = 2, embedding_dim = 1, num_layers = 1,
          user_embedding = [[1]], item_embedding = [[2], [3]],
          norm_adj = \<lparr>sp_size = (3, 3), sp_value = (\<lambda>ij. if ij = (0, 1) \<or> ij = (1, 0) then 1 else 0)\<rparr>\<rparr>"


text \<open>
  Two users and two items with no layer: user 0 has seen item 0 and is tested on item 1,
  user 1 has seen nothing and is tested on item 0.
\<close>

definition M1 :: LightGCN where
  "M1 = \<lparr>num_users = 2, num_items = 2, embedding_dim = 1, num_layers = 0,
          user_embedding = [[1], [2]], item_embedding = [[1], [3]],
          norm_adj = \<lparr>sp_size = (4, 4), sp_value = (\<lambda>ij. 0)\<rparr>\<rparr>"

definition GT1 :: "(nat \<times> nat list) list" where
  "GT1 = [(0, [1]), (1, [0])]"

definition UID1 :: "nat \<rightharpoonup> nat set" where
  "UID1 = [0 \<mapsto> {0}]"

text \<open>
  One tested user whose held-out item 1 is also among the training items.
\<close>

definition GT2 :: "(nat \<times> nat list) list" where
  "GT2 = [(0, [1])]"

definition UID2 :: "nat \<rightharpoonup> nat set" where
  "UID2 = [0 \<mapsto> {0, 1}]"


section \<open>Properties\<close>

subsection \<open>EarlyStopping\<close>

lemma call_best_and_counter:
  "call self s =
     (if best_score self = None \<or> s > the (best_score self) + delta self
      then self\<lparr>best_score := Some s, counter := 0\<rparr>
      else self\<lparr>counter := counter self + 1\<rparr>)"
  by (cases "best_score self") (simp_all add: call_def improved_def)

lemma call_early_stop: "early_stop (call self s) = early_stop self"
  by (simp add: call_def)

lemma call_patience: "patience (call self s) = patience self"
  by (simp add: call_def)

lemma foldl_call_early_stop: "early_stop (foldl call self ss) = early_stop self"
  by (induction ss arbitrary: self) (simp_all add: call_early_stop)

lemma epoch_loop_never_stops:
  "\<not> early_stop es \<Longrightarrow> epoch_loop es recalls = (foldl call es recalls, length recalls)"
proof (induction recalls arbitrary: es)
  case Nil
  then show ?case by simp
next
  case (Cons r rs)
  from Cons.prems have "\<not> early_stop (call es r)"
    by (simp add: call_early_stop)
  with Cons.IH [of "call es r"] show ?case
    by (simp add: Let_def)
qed

text \<open>
  C1, at the spec's own example. With \<open>patience = 2\<close> and \<open>delta = 0\<close> the scores
  \<open>[0.1, 0.1, 0.1]\<close> leave the controller with \<open>best_score = 0.1\<close> and \<open>counter = 2\<close>, so
  the counter has reached the patience at the third observation; but \<open>__call__\<close> never
  assigns \<open>early_stop\<close>, the flag is still \<open>False\<close>, and the epoch loop of
  \<open>train_lightgcn\<close> never takes its \<open>break\<close>: on five equal recalls it runs all five
  epochs.
\<close>

theorem early_stopping_never_signals:
  "(let es = foldl call (EarlyStopping_init 2 0 True) [1/10, 1/10, 1/10]
    in best_score es = Some (1/10) \<and> counter es = 2 \<and> counter es = patience es
       \<and> early_stop es = False)
   \<and> snd (train_lightgcn_epochs 2 [1/10, 1/10, 1/10, 1/10, 1/10]) = 5"
  by (simp add: train_lightgcn_epochs_def EarlyStopping_init_def call_def improved_def Let_def)

subsection \<open>train_one_epoch\<close>

declare batch_loop.simps [simp del] batches.simps [simp del]

lemma batch_loop_batches:
  "batch_loop step samples B start st tot =
     foldl (\<lambda>(t, s) b. case step s b of (l, s') \<Rightarrow> (t + l, s')) (tot, st)
       (batches samples B start)"
proof (induction step samples B start st tot rule: batch_loop.induct)
  case (1 step samples B start st tot)
  show ?case
  proof (cases "B = 0 \<or> length samples \<le> start")
    case True
    then show ?thesis
      by (simp add: batch_loop.simps [of step samples B start] batches.simps [of samples B start])
  next
    case False
    obtain l s' where st: "step st (take B (drop start samples)) = (l, s')"
      by (cases "step st (take B (drop start samples))")
    have st2: "(l, s') = step st (take (start + B - start) (drop start samples))"
      using st by simp
    from False st "1.IH" [OF False refl refl st2]
    show ?thesis
      by (simp add: batch_loop.simps [of step samples B start] batches.simps [of samples B start])
  qed
qed

lemma ceil_div_nat:
  fixes N B :: nat
  assumes B: "0 < B"
  shows "\<lceil>real N / real B\<rceil> = int ((N + B - 1) div B)"
proof -
  define q where "q = (N + B - 1) div B"
  have le: "N \<le> q * B"
  proof -
    have "(N + B - 1) mod B < B" using B by simp
    moreover have "q * B + (N + B - 1) mod B = N + B - 1" by (simp add: q_def)
    ultimately show ?thesis by linarith
  qed
  have ub: "q * B \<le> N + B - 1" by (simp add: q_def)
  have 1: "real N / real B \<le> real q"
    using le B by (simp add: divide_le_eq flip: of_nat_mult)
  have 2: "real q - 1 < real N / real B"
  proof -
    have "q * B < N + B" using ub B by linarith
    then have "real q * real B < real N + real B"
      by (simp flip: of_nat_mult of_nat_add)
    then have "(real q - 1) * real B < real N" by (simp add: algebra_simps)
    then show ?thesis using B by (simp add: less_divide_eq)
  qed
  show ?thesis unfolding q_def [symmetric]
    by (rule ceiling_unique) (use 1 2 in simp_all)
qed

lemma length_batches:
  "0 < B \<Longrightarrow> length (batches samples B start) = (length samples - start + B - 1) div B"
proof (induction samples B start rule: batches.induct)
  case (1 samples B start)
  show ?case
  proof (cases "length samples \<le> start")
    case True
    with "1.prems" show ?thesis
      by (simp add: batches.simps [of samples B start])
  next
    case False
    with "1.prems" have IH:
      "length (batches samples B (start + B)) = (length samples - (start + B) + B - 1) div B"
      using "1.IH" by simp
    have "length (batches samples B start) = Suc (length (batches samples B (start + B)))"
      using False "1.prems" by (simp add: batches.simps [of samples B start])
    also have "\<dots> = Suc ((length samples - (start + B) + B - 1) div B)"
      by (simp add: IH)
    also have "\<dots> = (length samples - start + B - 1) div B"
    proof -
      define d where "d = length samples - start"
      have d: "0 < d" using False by (simp add: d_def)
      have e: "length samples - (start + B) = d - B" by (simp add: d_def)
      show ?thesis
      proof (cases "B \<le> d")
        case True
        then have "d + B - 1 = (d - B + B - 1) + B" using "1.prems" by simp
        then have "(d + B - 1) div B = Suc ((d - B + B - 1) div B)"
          using "1.prems" by (metis div_add_self2 less_numeral_extra(3) Suc_eq_plus1)
        then show ?thesis by (simp add: e d_def [symmetric])
      next
        case False
        with d "1.prems" have "(d - B + B - 1) div B = 0" "(d + B - 1) div B = 1"
          by (simp_all add: div_eq_dividend_iff Suc_leI le_div_geq)
        then show ?thesis by (simp add: e d_def [symmetric])
      qed
    qed
    finally show ?thesis .
  qed
qed

lemma num_batches_off_by_one:
  fixes N B :: nat
  assumes "0 < B"
  shows "N div B + 1 = (N + B - 1) div B \<longleftrightarrow> \<not> B dvd N"
proof (cases "B dvd N")
  case True
  then obtain q where q: "N = B * q" by (auto simp: dvd_def)
  have "(B * q + B - 1) div B = q"
  proof (rule div_nat_eqI)
    show "B * q \<le> B * q + B - 1" using assms by simp
    show "B * q + B - 1 < B * Suc q" using assms by simp
  qed
  with q True assms show ?thesis by simp
next
  case False
  then have m: "0 < N mod B" by (auto simp: dvd_eq_mod_eq_0)
  have "(N + B - 1) div B = Suc (N div B)"
  proof (rule div_nat_eqI)
    define k where "k = N div B"
    define r where "r = N mod B"
    have N: "N = k * B + r" by (simp add: k_def r_def)
    have lt: "r < B" using assms by (simp add: r_def)
    have pos: "0 < r" using m by (simp add: r_def)
    have e1: "B * Suc k = k * B + B" by simp
    have e2: "B * Suc (Suc k) = k * B + B + B" by simp
    show "B * Suc (N div B) \<le> N + B - 1"
      unfolding k_def [symmetric] e1 using N pos by linarith
    show "N + B - 1 < B * Suc (Suc (N div B))"
      unfolding k_def [symmetric] e2 using N lt assms by linarith
  qed
  with False show ?thesis by simp
qed

lemma batch_count_ceiling:
  "0 < B \<Longrightarrow> int (length (batches samples B 0)) = \<lceil>real (length samples) / real B\<rceil>"
  by (simp add: length_batches ceil_div_nat)

lemma train_one_epoch_positive_batch_size:
  assumes "0 < B"
  shows "train_one_epoch step st samples (int B) =
     (case foldl (\<lambda>(t, s) b. case step s b of (l, s') \<Rightarrow> (t + l, s')) (0, st)
             (batches samples B 0) of
        (total_loss, st') \<Rightarrow> Inr (total_loss / real (length samples div B + 1), st'))"
proof -
  have "int (length samples) div int B + 1 = int (length samples div B + 1)"
    by (simp add: zdiv_int)
  moreover have "int (length samples div B + 1) \<noteq> 0"
    by (simp del: of_nat_add of_nat_Suc)
  ultimately show ?thesis
    using assms
    by (simp add: train_one_epoch_def batch_loop_batches Let_def split: prod.splits
        del: of_nat_add of_nat_Suc)
qed

text \<open>
  C2, at four samples and batch size two, with every batch's loss equal to 1. The loop
  visits \<open>\<lceil>4 / 2\<rceil> = 2\<close> batches and accumulates 2, but \<open>num_batches\<close> is \<open>4 // 2 + 1 = 3\<close>, and
  the epoch's result is \<open>2 / 3\<close>, not the mean loss 1. (The count
  \<open>N // batch_size + 1\<close> is \<open>\<lceil>N / batch_size\<rceil>\<close> only when the batch size does not divide
  \<open>N\<close>: lemmas \<open>num_batches_off_by_one\<close> and \<open>batch_count_ceiling\<close>.)
\<close>

theorem train_one_epoch_divides_by_one_batch_too_many:
  "train_one_epoch (\<lambda>st batch. (1, st)) () [a, b, c, d] 2 = Inr (2 / 3, ())
   \<and> length (batches [a, b, c, d] 2 0) = 2
   \<and> \<lceil>real (length [a, b, c, d]) / real_of_int 2\<rceil> = 2"
  by (simp add: train_one_epoch_def batch_loop.simps batches.simps Let_def)

subsection \<open>build_adj_matrix\<close>

lemma foldl_fadd_Fin: "foldl fadd (Fin a) (map Fin xs) = Fin (a + sum_list xs)"
  by (induction xs arbitrary: a) (simp_all add: add.assoc)

lemma fsum_Fin: "fsum (map Fin xs) = Fin (sum_list xs)"
  by (simp add: fsum_def foldl_fadd_Fin)

lemma fsum_single: "fsum [x] = x"
  by (cases x) (simp_all add: fsum_def)

lemma fsum_replicate_one: "fsum (replicate k (Fin 1)) = Fin (real k)"
proof -
  have "replicate k (Fin 1) = map Fin (replicate k 1)" by simp
  then show ?thesis by (simp only: fsum_Fin sum_list_replicate) simp
qed

lemma fadd_commute: "fadd x y = fadd y x"
  by (cases x; cases y) simp_all

lemma filter_zip_replicate:
  "map fst (filter (\<lambda>d. snd d = ij) (zip (replicate (length ijs) c) ijs))
     = replicate (count_list ijs ij) c"
  by (induction ijs) simp_all

lemma coo_matrix_ones:
  assumes "coo_matrix (replicate (length ijs) (Fin 1)) ijs shp = Inr R"
  shows "stored R ij = (if count_list ijs ij = 0 then None else Some (Fin (real (count_list ijs ij))))"
    and "shape R = shp"
    and "list_all (\<lambda>ij. fst ij < fst shp \<and> snd ij < snd shp) ijs"
  using assms
  by (auto simp: coo_matrix_def filter_zip_replicate fsum_replicate_one Let_def split: if_splits)

lemma zip_rows_cols:
  "zip (map fst ps) (map (\<lambda>p. snd p + U) ps) = edges U ps"
  by (induction ps) (simp_all add: edges_def)


lemma sym_adj_Inr:
  assumes "sym_adj U I ps = Inr A"
  shows "stored A (a, b) = (if edge_count U ps a b = 0 then None else Some (Fin (real (edge_count U ps a b))))"
    and "shape A = (U + I, U + I)"
    and "list_all (\<lambda>e. fst e < U + I \<and> snd e < U + I) (edges U ps)"
proof -
  from assms obtain R where
    R: "coo_matrix (replicate (length (edges U ps)) (Fin 1)) (edges U ps) (U + I, U + I) = Inr R"
    and A: "A = sp_add R (sp_transpose R)"
    by (auto simp: sym_adj_def Let_def zip_rows_cols edges_def split: sum.splits)
  note r = coo_matrix_ones [OF R]
  show "stored A (a, b) = (if edge_count U ps a b = 0 then None else Some (Fin (real (edge_count U ps a b))))"
    by (simp add: A sp_add_def sp_transpose_def r(1) edge_count_def)
  show "shape A = (U + I, U + I)"
    by (simp add: A sp_add_def r(2))
  show "list_all (\<lambda>e. fst e < U + I \<and> snd e < U + I) (edges U ps)"
    using r(3) by simp
qed

lemma sym_adj_ok:
  "list_all (\<lambda>e. fst e < U + I \<and> snd e < U + I) (edges U ps) \<Longrightarrow> \<exists>A. sym_adj U I ps = Inr A"
  by (simp add: sym_adj_def Let_def zip_rows_cols coo_matrix_def edges_def)

lemma in_range_edges:
  "in_range U I ps \<Longrightarrow> list_all (\<lambda>e. fst e < U + I \<and> snd e < U + I) (edges U ps)"
  by (auto simp: in_range_def edges_def list_all_iff)

lemma edge_count_commute: "edge_count U ps a b = edge_count U ps b a"
  by (simp add: edge_count_def)

lemma foldl_fadd_counts:
  "foldl fadd (Fin x) (List.map_filter (\<lambda>j. if k j = 0 then None else Some (Fin (real (k j)))) js)
     = Fin (x + real (sum_list (map k js)))"
  by (induction js arbitrary: x) (simp_all add: map_filter_simps add.assoc)

lemma fsum_counts:
  "fsum (List.map_filter (\<lambda>j. if k j = 0 then None else Some (Fin (real (k j)))) js)
     = Fin (real (sum_list (map k js)))"
  by (simp add: fsum_def foldl_fadd_counts)

lemma sum_count_fst:
  assumes "list_all (\<lambda>e. snd e < n) es"
  shows "sum_list (map (\<lambda>j. count_list es (a, j)) [0..<n]) = length (filter (\<lambda>e. fst e = a) es)"
  using assms
proof (induction es)
  case Nil
  then show ?case by simp
next
  case (Cons e es)
  obtain u v where e: "e = (u, v)" by (cases e)
  from Cons.prems e have v: "v < n" by simp
  have "sum_list (map (\<lambda>j. count_list (e # es) (a, j)) [0..<n])
      = (\<Sum>j = 0..<n. (if u = a \<and> v = j then 1 else 0) + count_list es (a, j))"
    by (simp add: interv_sum_list_conv_sum_set_nat e add.commute cong: if_cong)
      (rule sum.cong, auto)
  also have "\<dots> = (\<Sum>j = 0..<n. if u = a \<and> v = j then 1 else 0) + (\<Sum>j = 0..<n. count_list es (a, j))"
    by (simp add: sum.distrib)
  also have "(\<Sum>j = 0..<n. if u = a \<and> v = j then 1 else 0) = (if u = a then 1 else (0::nat))"
    using v by (cases "u = a") simp_all
  also have "(\<Sum>j = 0..<n. count_list es (a, j)) = length (filter (\<lambda>e. fst e = a) es)"
    using Cons by (simp add: interv_sum_list_conv_sum_set_nat)
  finally show ?case by (simp add: e)
qed

lemma sum_count_snd:
  assumes "list_all (\<lambda>e. fst e < n) es"
  shows "sum_list (map (\<lambda>j. count_list es (j, a)) [0..<n]) = length (filter (\<lambda>e. snd e = a) es)"
  using assms
proof (induction es)
  case Nil
  then show ?case by simp
next
  case (Cons e es)
  obtain u v where e: "e = (u, v)" by (cases e)
  from Cons.prems e have u: "u < n" by simp
  have "sum_list (map (\<lambda>j. count_list (e # es) (j, a)) [0..<n])
      = (\<Sum>j = 0..<n. (if v = a \<and> u = j then 1 else 0) + count_list es (j, a))"
    by (simp add: interv_sum_list_conv_sum_set_nat e add.commute cong: if_cong)
      (rule sum.cong, auto)
  also have "\<dots> = (\<Sum>j = 0..<n. if v = a \<and> u = j then 1 else 0) + (\<Sum>j = 0..<n. count_list es (j, a))"
    by (simp add: sum.distrib)
  also have "(\<Sum>j = 0..<n. if v = a \<and> u = j then 1 else 0) = (if v = a then 1 else (0::nat))"
    using u by (cases "v = a") simp_all
  also have "(\<Sum>j = 0..<n. count_list es (j, a)) = length (filter (\<lambda>e. snd e = a) es)"
    using Cons by (simp add: interv_sum_list_conv_sum_set_nat)
  finally show ?case by (simp add: e)
qed

lemma degree_edges:
  "degree U ps a = length (filter (\<lambda>e. fst e = a) (edges U ps))
                 + length (filter (\<lambda>e. snd e = a) (edges U ps))"
  by (simp add: degree_def edges_def filter_map comp_def)

lemma sum_mult_degree:
  assumes "list_all (\<lambda>e. fst e < n \<and> snd e < n) (edges U ps)"
  shows "sum_list (map (edge_count U ps a) [0..<n]) = degree U ps a"
proof -
  from assms have 1: "list_all (\<lambda>e. snd e < n) (edges U ps)" and 2: "list_all (\<lambda>e. fst e < n) (edges U ps)"
    by (simp_all add: list_all_iff)
  have "sum_list (map (edge_count U ps a) [0..<n])
      = sum_list (map (\<lambda>j. count_list (edges U ps) (a, j)) [0..<n])
        + sum_list (map (\<lambda>j. count_list (edges U ps) (j, a)) [0..<n])"
    by (simp add: edge_count_def [abs_def] sum_list_addf)
  then show ?thesis
    by (simp add: sum_count_fst [OF 1] sum_count_snd [OF 2] degree_edges)
qed

lemma sum1_sym_adj:
  assumes "sym_adj U I ps = Inr A" and "a < U + I"
  shows "sum1 A ! a = Fin (real (degree U ps a))"
    and "length (sum1 A) = U + I"
proof -
  note A = sym_adj_Inr [OF assms(1)]
  have "(\<lambda>j. stored A (a, j)) = (\<lambda>j. if edge_count U ps a j = 0 then None else Some (Fin (real (edge_count U ps a j))))"
    by (simp add: A(1))
  then show "sum1 A ! a = Fin (real (degree U ps a))"
    using assms(2) by (simp add: sum1_def A(2) fsum_counts sum_mult_degree [OF A(3)])
  show "length (sum1 A) = U + I"
    by (simp add: sum1_def A(2))
qed

lemma filter_eq_upt: "filter (\<lambda>i. i = a) [0..<n] = (if a < n then [a] else [])"
  by (induction n) auto

lemma zip_diag:
  assumes "length d = n"
  shows "zip d (zip [0..<n] [0..<n]) = map (\<lambda>i. (d ! i, (i, i))) [0..<n]"
proof -
  have d: "map (\<lambda>i. d ! i) [0..<n] = d"
    using assms map_nth [of d] by simp
  have "zip d (zip [0..<n] [0..<n]) = zip (map (\<lambda>i. d ! i) [0..<n]) (map (\<lambda>i. (i, i)) [0..<n])"
    by (simp only: d zip_same_conv_map)
  also have "\<dots> = map (\<lambda>i. (d ! i, (i, i))) [0..<n]"
    by (simp add: zip_map_map zip_same_conv_map comp_def)
  finally show ?thesis .
qed

lemma diag_filter:
  assumes "length d = n"
  shows "map fst (filter (\<lambda>x. snd x = (a, b)) (zip d (zip [0..<n] [0..<n])))
       = (if a = b \<and> a < n then [d ! a] else [])"
proof -
  have "filter (\<lambda>i. (i, i) = (a, b)) [0..<n] = (if a = b \<and> a < n then [a] else [])"
  proof (cases "a = b")
    case True
    then show ?thesis using filter_eq_upt [of a n] by simp
  next
    case False
    then have "filter (\<lambda>i. (i, i) = (a, b)) [0..<n] = filter (\<lambda>i. False) [0..<n]"
      by (intro filter_cong) auto
    with False show ?thesis by simp
  qed
  then show ?thesis
    by (simp add: zip_diag [OF assms] filter_map comp_def)
qed

lemma coo_matrix_diag:
  assumes "length d = n"
  shows "coo_matrix d (zip [0..<n] [0..<n]) (n, n)
       = Inr \<lparr>shape = (n, n), stored = (\<lambda>ij. if fst ij = snd ij \<and> fst ij < n then Some (d ! fst ij) else None)\<rparr>"
proof -
  have "list_all (\<lambda>ij. fst ij < n \<and> snd ij < n) (zip [0..<n] [0..<n])"
    by (simp add: zip_same_conv_map list_all_iff)
  moreover have "(\<lambda>ij. let vs = map fst (filter (\<lambda>x. snd x = ij) (zip d (zip [0..<n] [0..<n])))
                    in if vs = [] then None else Some (fsum vs))
      = (\<lambda>ij. if fst ij = snd ij \<and> fst ij < n then Some (d ! fst ij) else None)"
  proof
    fix ij :: "nat \<times> nat"
    obtain a b where ij: "ij = (a, b)" by (cases ij)
    show "(let vs = map fst (filter (\<lambda>x. snd x = ij) (zip d (zip [0..<n] [0..<n])))
                    in if vs = [] then None else Some (fsum vs))
      = (if fst ij = snd ij \<and> fst ij < n then Some (d ! fst ij) else None)"
      by (simp add: ij diag_filter [OF assms] fsum_single)
  qed
  ultimately show ?thesis
    using assms by (simp add: coo_matrix_def)
qed

lemma concat_map_single:
  "concat (map (\<lambda>k. if k = a then f k else []) [0..<n]) = (if a < n then f a else [])"
  by (induction n) auto

lemma spmm_diag_left:
  assumes D: "stored D = (\<lambda>ij. if fst ij = snd ij \<and> fst ij < n then Some (d ! fst ij) else None)"
    and sh: "shape D = (n, n)"
  shows "stored (spmm D M) (a, b)
       = (if a < n then map_option (fmul (d ! a)) (stored M (a, b)) else None)"
proof -
  have "(\<lambda>k. case (stored D (a, k), stored M (k, b)) of
                (Some x, Some y) \<Rightarrow> [fmul x y] | _ \<Rightarrow> [])
      = (\<lambda>k. if k = a then (case stored M (k, b) of Some y \<Rightarrow> if a < n then [fmul (d ! a) y] else [] | None \<Rightarrow> []) else [])"
    by (auto simp: D fun_eq_iff split: option.splits)
  then have "concat (map (\<lambda>k. case (stored D (a, k), stored M (k, b)) of
                (Some x, Some y) \<Rightarrow> [fmul x y] | _ \<Rightarrow> []) [0..<n])
      = (if a < n then (case stored M (a, b) of Some y \<Rightarrow> [fmul (d ! a) y] | None \<Rightarrow> []) else [])"
    by (simp only: concat_map_single) (simp split: option.splits)
  then show ?thesis
    by (simp only: spmm_def spmatrix.select_convs sh fst_conv snd_conv Let_def)
      (simp add: fsum_single split: option.splits)
qed

lemma spmm_diag_right:
  assumes D: "stored D = (\<lambda>ij. if fst ij = snd ij \<and> fst ij < n then Some (d ! fst ij) else None)"
    and sh: "snd (shape M) = n"
  shows "stored (spmm M D) (a, b)
       = (if b < n then map_option (\<lambda>v. fmul v (d ! b)) (stored M (a, b)) else None)"
proof -
  have "(\<lambda>k. case (stored M (a, k), stored D (k, b)) of
                (Some x, Some y) \<Rightarrow> [fmul x y] | _ \<Rightarrow> [])
      = (\<lambda>k. if k = b then (case stored M (a, k) of Some x \<Rightarrow> if b < n then [fmul x (d ! b)] else [] | None \<Rightarrow> []) else [])"
    by (auto simp: D fun_eq_iff split: option.splits)
  then have "concat (map (\<lambda>k. case (stored M (a, k), stored D (k, b)) of
                (Some x, Some y) \<Rightarrow> [fmul x y] | _ \<Rightarrow> []) [0..<n])
      = (if b < n then (case stored M (a, b) of Some x \<Rightarrow> [fmul x (d ! b)] | None \<Rightarrow> []) else [])"
    by (simp only: concat_map_single) (simp split: option.splits)
  then show ?thesis
    by (simp only: spmm_def spmatrix.select_convs sh fst_conv snd_conv Let_def)
      (simp add: fsum_single split: option.splits)
qed

lemma length_sum1_sym_adj: "sym_adj U I ps = Inr A \<Longrightarrow> length (sum1 A) = U + I"
  by (simp add: sum1_def sym_adj_Inr(2))


lemma edge_outside:
  assumes "list_all (\<lambda>e. fst e < n \<and> snd e < n) (edges U ps)" and "\<not> (a < n \<and> b < n)"
  shows "edge_count U ps a b = 0"
proof -
  from assms have "(a, b) \<notin> set (edges U ps)" "(b, a) \<notin> set (edges U ps)"
    by (auto simp: list_all_iff)
  then show ?thesis
    by (simp add: edge_count_def count_list_0_iff)
qed

lemma build_adj_matrix_Inr:
  assumes "build_adj_matrix U I ps = Inr M"
  shows "stored M (a, b) =
           (if edge_count U ps a b = 0 then None
            else Some (Fin (dinv U ps a * real (edge_count U ps a b) * dinv U ps b)))"
    and "shape M = (U + I, U + I)"
    and "list_all (\<lambda>e. fst e < U + I \<and> snd e < U + I) (edges U ps)"
proof -
  define n where "n = U + I"
  from assms obtain A where A: "sym_adj U I ps = Inr A"
    by (auto simp: build_adj_matrix_def Let_def split: sum.splits)
  note a = sym_adj_Inr [OF A]
  define d where "d = map (\<lambda>x. np_power_neg_half (fadd x (Fin (1 / 100000000)))) (sum1 A)"
  have len: "length d = n"
    by (simp add: d_def length_sum1_sym_adj [OF A] n_def)
  define D where "D = \<lparr>shape = (n, n), stored = (\<lambda>ij. if fst ij = snd ij \<and> fst ij < n then Some (d ! fst ij) else None)\<rparr>"
  have M: "M = spmm (spmm D A) D"
    using assms A coo_matrix_diag [OF len]
    by (simp add: build_adj_matrix_def Let_def d_def [symmetric] n_def [symmetric] D_def)
  have Dst: "stored D = (\<lambda>ij. if fst ij = snd ij \<and> fst ij < n then Some (d ! fst ij) else None)"
    and Dsh: "shape D = (n, n)"
    by (simp_all add: D_def)
  have dn: "d ! i = Fin (dinv U ps i)" if "i < n" for i
  proof -
    have "0 < real (degree U ps i) + 1 / 100000000"
      by (rule add_nonneg_pos) simp_all
    then show ?thesis
      using that sum1_sym_adj [OF A, of i]
      by (simp add: d_def n_def dinv_def)
  qed
  show "shape M = (U + I, U + I)"
    by (simp add: M spmm_def Dsh n_def)
  show "list_all (\<lambda>e. fst e < U + I \<and> snd e < U + I) (edges U ps)"
    by (rule a(3))
  have sh2: "snd (shape (spmm D A)) = n"
    by (simp add: spmm_def a(2) n_def)
  show "stored M (a, b) =
           (if edge_count U ps a b = 0 then None
            else Some (Fin (dinv U ps a * real (edge_count U ps a b) * dinv U ps b)))"
  proof (cases "a < n \<and> b < n")
    case True
    then show ?thesis
      by (simp add: M spmm_diag_right [OF Dst sh2] spmm_diag_left [OF Dst Dsh] a(1) dn)
  next
    case False
    with edge_outside [OF a(3)] have "edge_count U ps a b = 0" by (simp add: n_def)
    with False show ?thesis
      by (auto simp: M spmm_diag_right [OF Dst sh2] spmm_diag_left [OF Dst Dsh] a(1))
  qed
qed

lemma build_adj_matrix_ok:
  assumes "list_all (\<lambda>e. fst e < U + I \<and> snd e < U + I) (edges U ps)"
  shows "\<exists>M. build_adj_matrix U I ps = Inr M"
proof -
  from sym_adj_ok [OF assms] obtain A where A: "sym_adj U I ps = Inr A" ..
  have "length (map (\<lambda>x. np_power_neg_half (fadd x (Fin (1 / 100000000)))) (sum1 A)) = U + I"
    by (simp add: length_sum1_sym_adj [OF A])
  from coo_matrix_diag [OF this] show ?thesis
    by (simp add: build_adj_matrix_def Let_def A)
qed

lemma powr_neg_half: "0 < x \<Longrightarrow> x powr (- 1 / 2) = 1 / sqrt x"
proof -
  assume "0 < x"
  then have "x powr (- (1 / 2)) = inverse (x powr (1 / 2))"
    by (simp only: powr_minus)
  also have "\<dots> = 1 / sqrt x"
    using \<open>0 < x\<close> by (simp add: powr_half_sqrt inverse_eq_divide)
  finally show ?thesis by simp
qed

lemma dinv_mult:
  "dinv U ps a * dinv U ps b
     = 1 / sqrt ((real (degree U ps a) + 1 / 100000000) * (real (degree U ps b) + 1 / 100000000))"
proof -
  have a: "0 < real (degree U ps a) + 1 / 100000000" by (rule add_nonneg_pos) simp_all
  have b: "0 < real (degree U ps b) + 1 / 100000000" by (rule add_nonneg_pos) simp_all
  show ?thesis
    unfolding dinv_def powr_neg_half [OF a] powr_neg_half [OF b]
    by (simp add: real_sqrt_mult)
qed

lemma distinct_count_list: "distinct xs \<Longrightarrow> count_list xs x = (if x \<in> set xs then 1 else 0)"
  by (induction xs) auto

lemma distinct_edges: "distinct ps \<Longrightarrow> distinct (edges U ps)"
  by (auto simp: edges_def distinct_map inj_on_def prod_eq_iff)

lemma entry_symmetric:
  assumes "build_adj_matrix U I ps = Inr M"
  shows "entry M (a, b) = entry M (b, a)"
  by (simp add: entry_def build_adj_matrix_Inr(1) [OF assms] edge_count_commute [of U ps a b]
      mult.commute mult.left_commute)

lemma edge_mult_one:
  assumes "in_range U I ps" and "distinct ps" and "(u, i) \<in> set ps"
  shows "edge_count U ps u (i + U) = 1"
proof -
  have "(u, i + U) \<in> set (edges U ps)"
    using assms(3) by (force simp: edges_def)
  then have 1: "count_list (edges U ps) (u, i + U) = 1"
    by (simp add: distinct_count_list [OF distinct_edges [OF assms(2)]])
  have "u < U" using assms(1,3) by (auto simp: in_range_def list_all_iff)
  then have "(i + U, u) \<notin> set (edges U ps)"
    by (auto simp: edges_def)
  then have 2: "count_list (edges U ps) (i + U, u) = 0"
    by (simp add: count_list_0_iff)
  from 1 2 show ?thesis by (simp add: edge_count_def)
qed

lemma entry_single_edge:
  assumes "build_adj_matrix U I ps = Inr M" and "edge_count U ps a b = 1"
  shows "entry M (a, b) = Fin (1 / sqrt ((real (degree U ps a) + 1 / 100000000)
                                         * (real (degree U ps b) + 1 / 100000000)))"
  using dinv_mult [of U ps a b]
  by (simp add: entry_def build_adj_matrix_Inr(1) [OF assms(1)] assms(2))

text \<open>
  C4, as the code has it. For distinct interaction pairs with users below \<open>num_users\<close> and
  items below \<open>num_items\<close>, the build succeeds, the normalized matrix is symmetric, and
  its entry for every edge \<open>(u, i + num_users)\<close> is
  \<open>1 / sqrt ((deg u + 1e-8) * (deg (i + num_users) + 1e-8))\<close>: the epsilon of
  \<open>d_inv_sqrt\<close> is part of the weight.
\<close>

theorem normalized_weight_with_epsilon:
  assumes "in_range U I ps" and "distinct ps"
  shows "\<exists>M. build_adj_matrix U I ps = Inr M
           \<and> (\<forall>a b. entry M (a, b) = entry M (b, a))
           \<and> (\<forall>p \<in> set ps. entry M (fst p, snd p + U)
                 = Fin (1 / sqrt ((real (degree U ps (fst p)) + 1 / 100000000)
                                  * (real (degree U ps (snd p + U)) + 1 / 100000000))))"
proof -
  from build_adj_matrix_ok [OF in_range_edges [OF assms(1)]]
  obtain M where M: "build_adj_matrix U I ps = Inr M" ..
  have "entry M (fst p, snd p + U)
                 = Fin (1 / sqrt ((real (degree U ps (fst p)) + 1 / 100000000)
                                  * (real (degree U ps (snd p + U)) + 1 / 100000000)))"
    if "p \<in> set ps" for p
  proof -
    from that have "edge_count U ps (fst p) (snd p + U) = 1"
      using edge_mult_one [OF assms, of "fst p" "snd p"] by simp
    then show ?thesis
      by (rule entry_single_edge [OF M])
  qed
  with M entry_symmetric [OF M] show ?thesis by blast
qed

theorem normalized_weight_with_epsilon_witness:
  "in_range 3 2 [(0, 0), (0, 1), (1, 0), (2, 0)] \<and> distinct [(0::nat, 0::nat), (0, 1), (1, 0), (2, 0)]
   \<and> (\<exists>M. build_adj_matrix 3 2 [(0, 0), (0, 1), (1, 0), (2, 0)] = Inr M
          \<and> entry M (0, 3) = entry M (3, 0)
          \<and> entry M (0, 3) = Fin (1 / sqrt ((2 + 1 / 100000000) * (3 + 1 / 100000000))))"
proof -
  have r: "in_range 3 2 [(0, 0), (0, 1), (1, 0), (2, 0)]"
    by (simp add: in_range_def)
  have d: "distinct [(0::nat, 0::nat), (0, 1), (1, 0), (2, 0)]"
    by simp
  from normalized_weight_with_epsilon [OF r d] obtain M where
    M: "build_adj_matrix 3 2 [(0, 0), (0, 1), (1, 0), (2, 0)] = Inr M"
    and s: "\<forall>a b. entry M (a, b) = entry M (b, a)"
    and e: "\<forall>p \<in> set [(0, 0), (0, 1), (1, 0), (2, 0)]. entry M (fst p, snd p + 3)
                 = Fin (1 / sqrt ((real (degree 3 [(0, 0), (0, 1), (1, 0), (2, 0)] (fst p)) + 1 / 100000000)
                                  * (real (degree 3 [(0, 0), (0, 1), (1, 0), (2, 0)] (snd p + 3)) + 1 / 100000000)))"
    by blast
  from e have "entry M (0, 3) = Fin (1 / sqrt ((2 + 1 / 100000000) * (3 + 1 / 100000000)))"
    by (simp add: degree_def)
  with r d M s show ?thesis by blast
qed

text \<open>
  The weight is not \<open>1 / sqrt (deg a * deg b)\<close>: three users, two items, user 0 with both
  items and item 0 with all three users. The edge from node 0 (degree 2) to node 3
  (degree 3) has weight \<open>1 / sqrt ((2 + 1e-8) * (3 + 1e-8))\<close>, not \<open>1 / sqrt 6\<close>.
\<close>

theorem normalized_weight_not_exact:
  "\<not> isl (build_adj_matrix 3 2 [(0, 0), (0, 1), (1, 0), (2, 0)])
   \<and> entry (projr (build_adj_matrix 3 2 [(0, 0), (0, 1), (1, 0), (2, 0)])) (0, 3)
       \<noteq> Fin (1 / sqrt (real (degree 3 [(0, 0), (0, 1), (1, 0), (2, 0)] 0)
                         * real (degree 3 [(0, 0), (0, 1), (1, 0), (2, 0)] 3)))"
proof -
  have "list_all (\<lambda>e. fst e < 3 + 2 \<and> snd e < 3 + 2) (edges 3 [(0, 0), (0, 1), (1, 0), (2, 0)])"
    by (simp add: edges_def)
  from build_adj_matrix_ok [OF this] obtain M where
    M: "build_adj_matrix 3 2 [(0, 0), (0, 1), (1, 0), (2, 0)] = Inr M" ..
  have m: "edge_count 3 [(0, 0), (0, 1), (1, 0), (2, 0)] 0 3 = 1"
    by (simp add: edge_count_def edges_def)
  have d0: "degree 3 [(0, 0), (0, 1), (1, 0), (2, 0)] 0 = 2"
    and d3: "degree 3 [(0, 0), (0, 1), (1, 0), (2, 0)] 3 = 3"
    by (simp_all add: degree_def)
  have "entry M (0, 3) = Fin (1 / sqrt ((2 + 1 / 100000000) * (3 + 1 / 100000000)))"
    using entry_single_edge [OF M m] by (simp only: d0 d3) simp
  moreover have "sqrt ((2 + 1 / 100000000) * (3 + 1 / 100000000)) \<noteq> sqrt (2 * 3)"
    by (simp only: real_sqrt_eq_iff) simp
  ultimately show ?thesis
    by (simp only: M d0 d3) simp
qed

lemma sym_adj_entry: 
  assumes "sym_adj U I ps = Inr A"
  shows "entry A (a, b) = Fin (real (edge_count U ps a b))"
  by (simp add: entry_def sym_adj_Inr(1) [OF assms])

lemma degree_card:
  assumes "distinct ps" and "(a, a) \<notin> set (edges U ps)"
  shows "degree U ps a = card (edges_touching U ps a)"
proof -
  let ?es = "edges U ps"
  have d: "distinct ?es" by (rule distinct_edges [OF assms(1)])
  have 1: "length (filter (\<lambda>e. fst e = a) ?es) = card {e \<in> set ?es. fst e = a}"
    by (simp add: distinct_length_filter [OF d] Int_def conj_commute)
  have 2: "length (filter (\<lambda>e. snd e = a) ?es) = card {e \<in> set ?es. snd e = a}"
    by (simp add: distinct_length_filter [OF d] Int_def conj_commute)
  have disj: "{e \<in> set ?es. fst e = a} \<inter> {e \<in> set ?es. snd e = a} = {}"
    using assms(2) by (auto simp: prod_eq_iff)
  have un: "{e \<in> set ?es. fst e = a \<or> snd e = a}
          = {e \<in> set ?es. fst e = a} \<union> {e \<in> set ?es. snd e = a}"
    by auto
  show ?thesis
    unfolding degree_edges edges_touching_def 1 2 un
    by (rule card_Un_disjoint [symmetric]) (simp_all add: disj)
qed

text \<open>
  C5, as the code has it. The matrix \<open>adj = R + R.T\<close> is symmetric, and the sum of the row
  of a node is its degree: the number of interaction pairs that touch it, which for
  distinct pairs and a node without a self-loop is the number of distinct edges that touch
  it (once, not twice).
\<close>

theorem adjacency_symmetric_row_sum_is_degree:
  assumes "sym_adj U I ps = Inr A"
  shows "entry A (a, b) = entry A (b, a)
       \<and> (a < U + I \<longrightarrow>
            sum1 A ! a = Fin (real (degree U ps a))
            \<and> (distinct ps \<and> (a, a) \<notin> set (edges U ps) \<longrightarrow>
                 sum1 A ! a = Fin (real (card (edges_touching U ps a)))))"
proof (intro conjI impI)
  show "entry A (a, b) = entry A (b, a)"
    by (simp add: sym_adj_entry [OF assms] edge_count_commute [of U ps a b])
next
  assume "a < U + I"
  then show "sum1 A ! a = Fin (real (degree U ps a))"
    by (rule sum1_sym_adj(1) [OF assms])
next
  assume a: "a < U + I" and h: "distinct ps \<and> (a, a) \<notin> set (edges U ps)"
  from h have "degree U ps a = card (edges_touching U ps a)"
    by (simp add: degree_card)
  with sum1_sym_adj(1) [OF assms a]
  show "sum1 A ! a = Fin (real (card (edges_touching U ps a)))"
    by simp
qed

lemma card_edges_single: "card (edges_touching 1 [(0, 0)] 0) = 1"
proof -
  have "edges_touching 1 [(0, 0)] 0 = {(0, 1)}"
    by (auto simp: edges_touching_def edges_def)
  then show ?thesis by simp
qed

theorem adjacency_symmetric_row_sum_is_degree_witness:
  "\<exists>A. sym_adj 1 1 [(0, 0)] = Inr A
      \<and> entry A (0, 1) = entry A (1, 0)
      \<and> (0::nat) < 1 + 1 \<and> distinct [(0::nat, 0::nat)] \<and> (0, 0) \<notin> set (edges 1 [(0, 0)])
      \<and> sum1 A ! 0 = Fin (real (degree 1 [(0, 0)] 0))
      \<and> sum1 A ! 0 = Fin (real (card (edges_touching 1 [(0, 0)] 0)))
      \<and> sum1 A ! 0 = Fin 1"
proof -
  have "list_all (\<lambda>e. fst e < 1 + 1 \<and> snd e < 1 + 1) (edges 1 [(0, 0)])"
    by (simp add: edges_def)
  from sym_adj_ok [OF this] obtain A where A: "sym_adj 1 1 [(0, 0)] = Inr A" ..
  note t = adjacency_symmetric_row_sum_is_degree [OF A, of 0 1]
  have lt: "(0::nat) < 1 + 1" by simp
  have d: "distinct [(0::nat, 0::nat)]" by simp
  have e: "(0, 0) \<notin> set (edges 1 [(0, 0)])" by (simp add: edges_def)
  from t have 1: "entry A (0, 1) = entry A (1, 0)" by (rule conjunct1)
  from t [THEN conjunct2] lt have r: "sum1 A ! 0 = Fin (real (degree 1 [(0, 0)] 0))
            \<and> (distinct [(0::nat, 0::nat)] \<and> (0, 0) \<notin> set (edges 1 [(0, 0)]) \<longrightarrow>
                 sum1 A ! 0 = Fin (real (card (edges_touching 1 [(0, 0)] 0))))"
    by (rule mp)
  from r have 2: "sum1 A ! 0 = Fin (real (degree 1 [(0, 0)] 0))" by (rule conjunct1)
  from r [THEN conjunct2] d e
  have 3: "sum1 A ! 0 = Fin (real (card (edges_touching 1 [(0, 0)] 0)))"
    by blast
  from 3 have 4: "sum1 A ! 0 = Fin 1" by (simp only: card_edges_single) simp
  from A 1 2 3 4 d e lt show ?thesis by blast
qed

text \<open>
  One user, one item, one interaction: node 0 has one edge and no self-loop, and its row
  sum is 1, not 2.
\<close>

theorem row_sum_not_twice_the_edges:
  "\<not> isl (sym_adj 1 1 [(0, 0)])
   \<and> (0, 0) \<notin> set (edges 1 [(0, 0)])
   \<and> sum1 (projr (sym_adj 1 1 [(0, 0)])) ! 0
       \<noteq> Fin (2 * real (card (edges_touching 1 [(0, 0)] 0)))"
proof -
  have "list_all (\<lambda>e. fst e < 1 + 1 \<and> snd e < 1 + 1) (edges 1 [(0, 0)])"
    by (simp add: edges_def)
  from sym_adj_ok [OF this] obtain A where A: "sym_adj 1 1 [(0, 0)] = Inr A" ..
  have "sum1 A ! 0 = Fin (real (degree 1 [(0, 0)] 0))"
    by (rule sum1_sym_adj(1) [OF A]) simp
  then have "sum1 A ! 0 = Fin 1"
    by (simp add: degree_def)
  moreover have "(0, 0) \<notin> set (edges 1 [(0, 0)])" by (simp add: edges_def)
  ultimately show ?thesis
    by (simp only: A card_edges_single) simp
qed

lemma degree_zero_mult:
  assumes "degree U ps a = 0"
  shows "edge_count U ps a b = 0" and "edge_count U ps b a = 0"
proof -
  from assms have "filter (\<lambda>e. fst e = a) (edges U ps) = []" "filter (\<lambda>e. snd e = a) (edges U ps) = []"
    by (simp_all add: degree_edges)
  then have "(a, b) \<notin> set (edges U ps)" "(b, a) \<notin> set (edges U ps)"
    by (auto simp: filter_empty_conv)
  then show "edge_count U ps a b = 0" and "edge_count U ps b a = 0"
    by (simp_all add: edge_count_def count_list_0_iff)
qed

text \<open>
  C8. Every entry of the normalized matrix is a finite number (the argument of the power is
  at least \<open>1e-8\<close>, so no infinity arises and none meets a zero), and the row and the
  column of a node of degree 0 hold zeros only.
\<close>

theorem isolated_nodes_finite_and_zero:
  assumes "build_adj_matrix U I ps = Inr M"
  shows "(\<forall>a b. is_finite (entry M (a, b)))
       \<and> (\<forall>a. degree U ps a = 0 \<longrightarrow> (\<forall>b. entry M (a, b) = Fin 0 \<and> entry M (b, a) = Fin 0))"
proof (intro conjI allI impI)
  fix a b
  show "is_finite (entry M (a, b))"
    by (simp add: entry_def build_adj_matrix_Inr(1) [OF assms] is_finite_def)
next
  fix a b assume "degree U ps a = 0"
  from degree_zero_mult [OF this, of b]
  show "entry M (a, b) = Fin 0" and "entry M (b, a) = Fin 0"
    by (simp_all add: entry_def build_adj_matrix_Inr(1) [OF assms])
qed

theorem isolated_nodes_finite_and_zero_witness:
  "\<exists>M. build_adj_matrix 2 1 [(0, 0)] = Inr M
      \<and> degree 2 [(0, 0)] 1 = 0
      \<and> is_finite (entry M (1, 2)) \<and> is_finite (entry M (0, 2))
      \<and> entry M (1, 2) = Fin 0 \<and> entry M (2, 1) = Fin 0 \<and> entry M (1, 1) = Fin 0"
proof -
  have "list_all (\<lambda>e. fst e < 2 + 1 \<and> snd e < 2 + 1) (edges 2 [(0, 0)])"
    by (simp add: edges_def)
  from build_adj_matrix_ok [OF this] obtain M where M: "build_adj_matrix 2 1 [(0, 0)] = Inr M" ..
  have d: "degree 2 [(0, 0)] 1 = 0" by (simp add: degree_def)
  note t = isolated_nodes_finite_and_zero [OF M]
  from t have 1: "is_finite (entry M (1, 2))" "is_finite (entry M (0, 2))" by blast+
  from t d have 2: "entry M (1, 2) = Fin 0" "entry M (2, 1) = Fin 0" "entry M (1, 1) = Fin 0"
    by blast+
  from M d 1 2 show ?thesis by blast
qed

subsection \<open>Propagation\<close>

lemma propagate_shape:
  "\<exists>ls. propagate adj n x embs = embs @ ls \<and> length ls = n"
proof (induction n arbitrary: x embs)
  case 0
  then show ?case by simp
next
  case (Suc n)
  from Suc [of "sparse_mm adj x" "embs @ [sparse_mm adj x]"]
  obtain ls where "propagate adj n (sparse_mm adj x) (embs @ [sparse_mm adj x])
      = (embs @ [sparse_mm adj x]) @ ls" and "length ls = n"
    by blast
  then have "propagate adj (Suc n) x embs = embs @ (sparse_mm adj x # ls)
      \<and> length (sparse_mm adj x # ls) = Suc n"
    by (simp add: Let_def)
  then show ?case by blast
qed

lemma sum_list_upt_cong:
  "(\<And>l. l < n \<Longrightarrow> f l = g l) \<Longrightarrow> (\<Sum>l\<leftarrow>[0..<n]. f l) = (\<Sum>l\<leftarrow>[0..<n]. (g l :: real))"
  by (rule arg_cong [where f = sum_list]) (rule map_cong, simp_all)

lemma stack_mean_agree:
  assumes "list_all (\<lambda>row. length row = D) e"
  shows "mean_dim1 (stack_dim1 (e # ls)) = mean_dim0 (stack_dim0 (e # ls))"
proof -
  let ?T = "e # ls"
  have rows: "length (e ! i) = D" if "i < length e" for i
    using assms that by (simp add: list_all_length)
  have nc: "ncols e = D" if "i < length e" for i
    using rows [of 0] that by (cases e) (simp_all add: ncols_def)
  have "mean_dim1 (stack_dim1 ?T)
      = map (\<lambda>i. map (\<lambda>j. (\<Sum>l\<leftarrow>[0..<length ?T]. map (\<lambda>t'. t' ! i) ?T ! l ! j) / real (length ?T))
                    [0..<length (e ! i)]) [0..<length e]"
    by (simp add: mean_dim1_def stack_dim1_def ncols_def comp_def)
  also have "\<dots> = map (\<lambda>i. map (\<lambda>j. (\<Sum>l\<leftarrow>[0..<length ?T]. ?T ! l ! i ! j) / real (length ?T))
                    [0..<ncols e]) [0..<length e]"
  proof (rule map_cong [OF refl])
    fix i assume "i \<in> set [0..<length e]"
    then have i: "i < length e" by simp
    have "(\<Sum>l\<leftarrow>[0..<length ?T]. map (\<lambda>t'. t' ! i) ?T ! l ! j) = (\<Sum>l\<leftarrow>[0..<length ?T]. ?T ! l ! i ! j)" for j
      by (rule sum_list_upt_cong) (simp only: nth_map)
    then show "map (\<lambda>j. (\<Sum>l\<leftarrow>[0..<length ?T]. map (\<lambda>t'. t' ! i) ?T ! l ! j) / real (length ?T)) [0..<length (e ! i)]
        = map (\<lambda>j. (\<Sum>l\<leftarrow>[0..<length ?T]. ?T ! l ! i ! j) / real (length ?T)) [0..<ncols e]"
      by (simp only: rows [OF i] nc [OF i])
  qed
  also have "\<dots> = mean_dim0 (stack_dim0 ?T)"
    by (simp add: mean_dim0_def stack_dim0_def)
  finally show ?thesis .
qed

lemma wf_model_rows:
  "wf_model m \<Longrightarrow> list_all (\<lambda>row. length row = embedding_dim m) (user_embedding m @ item_embedding m)"
  by (simp add: wf_model_def)

text \<open>
  C10. On a model of the shapes of \<open>__init__\<close>, \<open>getEmbedding\<close> (stack along dimension 1,
  mean over dimension 1) and \<open>forward\<close> (stack along dimension 0, mean over dimension 0)
  return the same pair of embeddings, so \<open>bpr_loss\<close> (through \<open>getEmbeddingTriple\<close>) and
  \<open>evaluate_model\<close> (through \<open>model()\<close>) score against the same embeddings.
\<close>

theorem getEmbedding_eq_forward:
  assumes "wf_model m"
  shows "getEmbedding m = forward m"
proof -
  let ?e = "user_embedding m @ item_embedding m"
  from propagate_shape [of "norm_adj m" "num_layers m" ?e "[?e]"]
  obtain ls where ls: "propagate (norm_adj m) (num_layers m) ?e [?e] = ?e # ls"
    by auto
  show ?thesis
    by (simp only: getEmbedding_def forward_def Let_def ls
        stack_mean_agree [OF wf_model_rows [OF assms]])
qed

lemma mean_stack_single: "mean_dim1 (stack_dim1 [e]) = e"
proof -
  have "mean_dim1 (stack_dim1 [e]) = map (\<lambda>i. map (\<lambda>j. e ! i ! j) [0..<length (e ! i)]) [0..<length e]"
    by (simp add: mean_dim1_def stack_dim1_def ncols_def comp_def)
  also have "\<dots> = map (\<lambda>i. e ! i) [0..<length e]"
    by (simp only: map_nth)
  also have "\<dots> = e"
    by (rule map_nth)
  finally show ?thesis .
qed

text \<open>
  C7. With \<open>num_layers = 0\<close> the propagation returns the layer-0 embeddings: the mean over
  the one layer is the layer.
\<close>

theorem getEmbedding_no_layers:
  assumes "wf_model m" and "num_layers m = 0"
  shows "getEmbedding m = (user_embedding m, item_embedding m)"
  using assms
  by (simp add: getEmbedding_def Let_def mean_stack_single wf_model_def)


lemma wf_M0: "wf_model M0" "wf_model (M0\<lparr>num_layers := 0\<rparr>)"
  by (simp_all add: wf_model_def M0_def)

lemma getEmbedding_M0: "getEmbedding M0 = ([[3 / 2]], [[3 / 2], [3 / 2]])"
  by (simp add: getEmbedding_def M0_def Let_def sparse_mm_def ncols_def stack_dim1_def mean_dim1_def
      upt_rec [of 0] upt_rec [of 1] upt_rec [of 2] upt_rec [of 3])

theorem getEmbedding_eq_forward_witness:
  "wf_model M0 \<and> getEmbedding M0 = forward M0 \<and> forward M0 = ([[3 / 2]], [[3 / 2], [3 / 2]])"
  using getEmbedding_eq_forward [OF wf_M0(1)] getEmbedding_M0 wf_M0(1) by simp

theorem getEmbedding_no_layers_witness:
  "wf_model (M0\<lparr>num_layers := 0\<rparr>) \<and> num_layers (M0\<lparr>num_layers := 0\<rparr>) = 0
   \<and> getEmbedding (M0\<lparr>num_layers := 0\<rparr>) = ([[1]], [[2], [3]])"
  using getEmbedding_no_layers [OF wf_M0(2)] wf_M0(2) by (simp add: M0_def)

subsection \<open>bpr_loss\<close>

lemma length_mean_stack:
  "length (mean_dim1 (stack_dim1 (e # ls))) = length e"
  by (simp add: mean_dim1_def stack_dim1_def)

lemma getEmbedding_lengths:
  assumes "wf_model m"
  shows "length (fst (getEmbedding m)) = num_users m"
    and "length (snd (getEmbedding m)) = num_items m"
proof -
  let ?e = "user_embedding m @ item_embedding m"
  from propagate_shape [of "norm_adj m" "num_layers m" ?e "[?e]"]
  obtain ls where ls: "propagate (norm_adj m) (num_layers m) ?e [?e] = ?e # ls"
    by auto
  have len: "length ?e = num_users m + num_items m"
    using assms by (simp add: wf_model_def)
  show "length (fst (getEmbedding m)) = num_users m"
    by (simp add: getEmbedding_def Let_def ls length_mean_stack len del: length_append)
  show "length (snd (getEmbedding m)) = num_items m"
    by (simp add: getEmbedding_def Let_def ls length_mean_stack len del: length_append)
qed

lemma bpr_loss_empty: "bpr_loss m [] [] [] = Inr NaN"
  by (simp add: bpr_loss_def getEmbeddingTriple_def index_rows_def broadcast2_def
      torch_mean_def norm2_def inf_of_sign_def split: prod.splits)

lemma bpr_loss_single:
  assumes "wf_model m" and "u < num_users m" and "p < num_items m" and "n < num_items m"
  shows "\<exists>r. bpr_loss m [u] [p] [n] = Inr (Fin r)"
proof -
  obtain ue ie where g: "getEmbedding m = (ue, ie)" by (cases "getEmbedding m")
  from getEmbedding_lengths [OF assms(1)] g
  have l: "length ue = num_users m" "length ie = num_items m" by simp_all
  from assms(1) have l0: "length (user_embedding m) = num_users m"
    "length (item_embedding m) = num_items m"
    by (simp_all add: wf_model_def)
  show ?thesis
    using assms(2-4)
    by (simp add: bpr_loss_def getEmbeddingTriple_def g index_rows_def l l0 broadcast2_def
        torch_mean_def Let_def)
qed

text \<open>
  C3, as the code has it. \<open>bpr_loss\<close> has no check of the batch size: on empty id tensors
  nothing is raised, the mean over no sample and the regularizer's division by
  \<open>users.shape[0] = 0\<close> are float divisions \<open>0 / 0\<close>, and the loss returned is NaN. A batch
  of one triple with ids in range returns a finite loss.
\<close>

theorem bpr_loss_empty_batch_is_nan:
  assumes "wf_model m"
  shows "bpr_loss m [] [] [] = Inr NaN
       \<and> (u < num_users m \<and> p < num_items m \<and> n < num_items m
            \<longrightarrow> (\<exists>r. bpr_loss m [u] [p] [n] = Inr (Fin r)))"
  using bpr_loss_empty bpr_loss_single [OF assms] by blast

lemma bpr_loss_M0: "bpr_loss M0 [0] [0] [1] = Inr (Fin (ln 2 + 14 / 10000))"
  by (simp add: bpr_loss_def getEmbeddingTriple_def getEmbedding_M0 index_rows_def broadcast2_def
      torch_mean_def Let_def dot_def softplus_def norm2_def config_reg_lambda_def)
    (simp add: M0_def)

theorem bpr_loss_empty_batch_is_nan_witness:
  "wf_model M0 \<and> bpr_loss M0 [] [] [] = Inr NaN
   \<and> (0::nat) < num_users M0 \<and> (0::nat) < num_items M0 \<and> (1::nat) < num_items M0
   \<and> bpr_loss M0 [0] [0] [1] = Inr (Fin (ln 2 + 14 / 10000))"
proof -
  have n: "(0::nat) < num_users M0" "(0::nat) < num_items M0" "(1::nat) < num_items M0"
    by (simp_all add: M0_def)
  note t = bpr_loss_empty_batch_is_nan [OF wf_M0(1), of 0 0 1]
  from t have 1: "bpr_loss M0 [] [] [] = Inr NaN" by (rule conjunct1)
  from t [THEN conjunct2] n have "\<exists>r. bpr_loss M0 [0] [0] [1] = Inr (Fin r)" by blast
  with bpr_loss_M0 have 2: "bpr_loss M0 [0] [0] [1] = Inr (Fin (ln 2 + 14 / 10000))" by simp
  from wf_M0(1) 1 n 2 show ?thesis by blast
qed

text \<open>The empty batch raises no error on the example model.\<close>

theorem bpr_loss_empty_batch_no_error:
  "\<not> isl (bpr_loss M0 [] [] []) \<and> bpr_loss M0 [] [] [] = Inr NaN"
  by (simp add: bpr_loss_empty)

subsection \<open>evaluate_model\<close>

text \<open>The candidate list holds the candidate set.\<close>

lemma candidates_set:
  "set (candidates model train_items gt_items) = ({0..<num_items model} - train_items) \<union> set gt_items
   \<and> set gt_items \<subseteq> set (candidates model train_items gt_items)"
  by (simp add: candidates_def)

lemma candidates_set_example:
  "set (candidates M1 {0} [0]) = {0, 1} \<and> 0 \<in> set (candidates M1 {0} [0])"
proof -
  have "{0..<num_items M1} - {0} \<union> set [0] = {0, 1}" by (auto simp: M1_def)
  with candidates_set [of M1 "{0}" "[0]"] show ?thesis
    by (simp add: M1_def del: One_nat_def)
qed

declare eval_batches.simps [simp del]

lemma eval_users_append:
  "eval_users f ue (xs @ ys) acc =
     (case eval_users f ue xs acc of Inl e \<Rightarrow> Inl e | Inr acc' \<Rightarrow> eval_users f ue ys acc')"
proof (induction xs arbitrary: acc)
  case Nil
  then show ?case by simp
next
  case (Cons x xs)
  obtain rl pl nl where acc: "acc = (rl, pl, nl)" by (cases acc)
  show ?case
    by (simp add: acc Cons.IH split: sum.splits prod.splits)
qed

lemma eval_batch_enumerate:
  assumes "list_all (\<lambda>u. u < length ue) us"
  shows "eval_batch f (map (\<lambda>u. ue ! u) (pre @ us)) (enumerate (length pre) us) acc
       = eval_users f ue us acc"
  using assms
proof (induction us arbitrary: pre acc)
  case Nil
  then show ?case by simp
next
  case (Cons u us)
  obtain rl pl nl where acc: "acc = (rl, pl, nl)" by (cases acc)
  from Cons.prems have u: "u < length ue" and us: "list_all (\<lambda>u. u < length ue) us"
    by simp_all
  have nth: "map (\<lambda>u. ue ! u) (pre @ u # us) ! length pre = ue ! u"
    by (simp add: nth_append)
  have IH: "eval_batch f (map (\<lambda>u. ue ! u) (pre @ u # us)) (enumerate (Suc (length pre)) us) acc'
      = eval_users f ue us acc'" for acc'
    using Cons.IH [OF us, of "pre @ [u]" acc'] by simp
  show ?case
    using u by (simp add: acc nth IH del: map_append split: sum.splits prod.splits)
qed

lemma eval_users_out_of_range:
  assumes "\<not> list_all (\<lambda>u. u < length ue) us"
  shows "returned (eval_users f ue us acc) = None"
  using assms
proof (induction us arbitrary: acc)
  case Nil
  then show ?case by simp
next
  case (Cons u us)
  obtain rl pl nl where acc: "acc = (rl, pl, nl)" by (cases acc)
  show ?case
  proof (cases "u < length ue")
    case True
    with Cons.prems have rest: "\<not> list_all (\<lambda>u. u < length ue) us" by simp
    show ?thesis
    proof (cases "f (ue ! u) u")
      case (Inl e)
      with True show ?thesis by (simp add: acc returned_def)
    next
      case (Inr t)
      obtain r p n where t: "t = (r, p, n)" by (cases t)
      have "eval_users f ue (u # us) acc = eval_users f ue us (rl @ [r], pl @ [p], nl @ [n])"
        using True by (simp add: acc Inr t)
      with Cons.IH [OF rest] show ?thesis by simp
    qed
  next
    case False
    then show ?thesis by (simp add: acc returned_def)
  qed
qed

lemma eval_batches_eval_users:
  assumes "0 < bs"
  shows "returned (eval_batches f ue bs users i acc) = returned (eval_users f ue (drop i users) acc)"
  using assms
proof (induction f ue bs users i acc rule: eval_batches.induct)
  case (1 f ue bs users i acc)
  show ?case
  proof (cases "length users \<le> i")
    case True
    then show ?thesis by (simp add: eval_batches.simps [of f ue bs users i])
  next
    case False
    let ?batch = "take bs (drop i users)"
    let ?rest = "drop (i + bs) users"
    have "drop bs (drop i users) = ?rest"
      by (simp only: drop_drop add.commute [of bs i])
    with append_take_drop_id [of bs "drop i users"]
    have split: "drop i users = ?batch @ ?rest"
      by simp
    have unfold_users: "eval_users f ue (drop i users) acc =
        (case eval_users f ue ?batch acc of Inl e \<Rightarrow> Inl e | Inr acc' \<Rightarrow> eval_users f ue ?rest acc')"
      by (subst split) (rule eval_users_append)
    have go: "\<not> (bs = 0 \<or> length users \<le> i)" using False "1.prems" by simp
    show ?thesis
    proof (cases "list_all (\<lambda>u. u < length ue) ?batch")
      case bad: False
      then have "eval_batches f ue bs users i acc = Inl IndexError"
        using go by (simp add: eval_batches.simps [of f ue bs users i] index_rows_def Let_def)
      moreover have "returned (eval_users f ue (drop i users) acc) = None"
        using eval_users_out_of_range [OF bad, of f acc]
        by (simp add: unfold_users returned_def split: sum.splits)
      ultimately show ?thesis by (simp add: returned_def)
    next
      case ok: True
      then have ix: "index_rows ue ?batch = Inr (map (\<lambda>u. ue ! u) ?batch)"
        by (simp add: index_rows_def)
      have eb: "eval_batch f (map (\<lambda>u. ue ! u) ?batch) (enumerate 0 ?batch) acc
          = eval_users f ue ?batch acc"
        using eval_batch_enumerate [OF ok, of f "[]" acc] by simp
      show ?thesis
      proof (cases "eval_users f ue ?batch acc")
        case (Inl e)
        then have "eval_batches f ue bs users i acc = Inl e"
          using go by (simp add: eval_batches.simps [of f ue bs users i] ix eb Let_def)
        moreover have "eval_users f ue (drop i users) acc = Inl e"
          by (simp add: unfold_users Inl)
        ultimately show ?thesis by simp
      next
        case (Inr acc')
        have "eval_batches f ue bs users i acc = eval_batches f ue bs users (i + bs) acc'"
          using go by (simp add: eval_batches.simps [of f ue bs users i] ix eb Inr Let_def)
        moreover have "eval_users f ue (drop i users) acc = eval_users f ue ?rest acc'"
          by (simp add: unfold_users Inr)
        moreover have "returned (eval_batches f ue bs users (i + bs) acc')
            = returned (eval_users f ue ?rest acc')"
          using "1.IH" [OF go refl ix _ "1.prems"] eb Inr by simp
        ultimately show ?thesis by simp
      qed
    qed
  qed
qed

lemma evaluate_model_by_users:
  assumes "0 < batch_size"
  shows "returned (evaluate_model model gt uid k batch_size) =
     map_option (\<lambda>(rl, pl, nl). (np_mean rl, np_mean pl, np_mean nl))
       (returned (eval_users (user_metrics model (snd (forward model)) gt uid k)
                    (fst (forward model)) (map fst gt) ([], [], [])))"
proof -
  obtain ue ie where f: "forward model = (ue, ie)" by (cases "forward model")
  have pos: "0 < nat batch_size" using assms by simp
  have ne: "batch_size \<noteq> 0" using assms by simp
  from eval_batches_eval_users [OF pos, of "user_metrics model ie gt uid k" ue "map fst gt" 0 "([], [], [])"]
  show ?thesis
    by (auto simp: evaluate_model_def f Let_def ne returned_def split: sum.splits)
qed

text \<open>
  C9. For two batch sizes above 0, \<open>evaluate_model\<close> returns the same three aggregates (or
  raises for both): a user's metrics are computed from the user's own row of \<open>user_emb\<close>,
  whichever batch the user is in, and are appended in the order of the users.
\<close>

theorem evaluate_model_batch_size_invariant:
  assumes "0 < b1" and "0 < b2"
  shows "returned (evaluate_model model test_ground_truth user_item_dict k b1)
       = returned (evaluate_model model test_ground_truth user_item_dict k b2)"
  by (simp only: evaluate_model_by_users [OF assms(1)] evaluate_model_by_users [OF assms(2)])

lemma forward_M1: "forward M1 = ([[1], [2]], [[1], [3]])"
  by (simp add: forward_def M1_def Let_def stack_dim0_def mean_dim0_def ncols_def
      upt_rec [of 0] upt_rec [of 1] upt_rec [of 2])

lemma candidates_user0: "candidates M1 {0} [1] = [1]"
proof -
  have s: "{0..<num_items M1} - {0} \<union> set [1] = {1}" by (auto simp: M1_def)
  show ?thesis unfolding candidates_def s by simp
qed

lemma candidates_user1: "candidates M1 {} [0] = [0, 1]"
proof -
  have s: "{0..<num_items M1} - {} \<union> set [0] = {0, 1}" by (auto simp: M1_def)
  show ?thesis unfolding candidates_def s by simp
qed

lemma user_metrics_user0: "user_metrics M1 [[1], [3]] GT1 UID1 1 [1] 0 = Inr (1, 1, 1)"
  by (simp add: user_metrics_def GT1_def UID1_def candidates_user0 index_rows_def
      topk_indices_def dot_def recall_at_k_def precision_at_k_def ndcg_at_k_def Let_def
      del: One_nat_def)

lemma user_metrics_user1: "user_metrics M1 [[1], [3]] GT1 UID1 1 [2] 1 = Inr (0, 0, 0)"
  by (simp add: user_metrics_def GT1_def UID1_def candidates_user1 index_rows_def
      topk_indices_def dot_def recall_at_k_def precision_at_k_def ndcg_at_k_def Let_def
      upt_rec [of 0] upt_rec [of 1] upt_rec [of 2] del: One_nat_def)
    simp

lemma GT1_users: "map fst GT1 = [0, 1]"
  by (simp add: GT1_def)

lemma evaluate_model_M1_batch1:
  "evaluate_model M1 GT1 UID1 1 1 = Inr (Fin (1 / 2), Fin (1 / 2), Fin (1 / 2))"
  by (simp add: evaluate_model_def forward_M1 eval_batches.simps index_rows_def Let_def
      user_metrics_user0 user_metrics_user1 np_mean_def GT1_users enumerate_eq_zip
      upt_rec [of 0] upt_rec [of 1] upt_rec [of 2] del: One_nat_def)

lemma evaluate_model_M1_batch2:
  "evaluate_model M1 GT1 UID1 1 2 = Inr (Fin (1 / 2), Fin (1 / 2), Fin (1 / 2))"
  by (simp add: evaluate_model_def forward_M1 eval_batches.simps index_rows_def Let_def
      user_metrics_user0 user_metrics_user1 np_mean_def GT1_users enumerate_eq_zip
      upt_rec [of 0] upt_rec [of 1] upt_rec [of 2] del: One_nat_def)

theorem evaluate_model_batch_size_invariant_witness:
  "(0::int) < 1 \<and> (0::int) < 2
   \<and> returned (evaluate_model M1 GT1 UID1 1 1) = returned (evaluate_model M1 GT1 UID1 1 2)
   \<and> returned (evaluate_model M1 GT1 UID1 1 2) = Some (Fin (1 / 2), Fin (1 / 2), Fin (1 / 2))"
proof -
  have 1: "(0::int) < 1" and 2: "(0::int) < 2" by simp_all
  from evaluate_model_batch_size_invariant [OF 1 2, of M1 GT1 UID1 1] evaluate_model_M1_batch2
  show ?thesis by (simp add: returned_def)
qed


subsection \<open>The candidates that evaluate_model ranks\<close>

lemma topk_indices_Inr:
  assumes "topk_indices scores k = Inr idxs"
  shows "length idxs = k" and "distinct idxs" and "set idxs \<subseteq> {0..<length scores}"
    and "\<And>i j. i \<in> set idxs \<Longrightarrow> j < length scores \<Longrightarrow> j \<notin> set idxs \<Longrightarrow> scores ! j \<le> scores ! i"
    and "sorted (map (\<lambda>i. - scores ! i) idxs)"
proof -
  let ?f = "\<lambda>i. - scores ! i"
  let ?s = "sort_key ?f [0..<length scores]"
  from assms have k: "k \<le> length scores" and idxs: "idxs = take k ?s"
    by (auto simp: topk_indices_def split: if_splits)
  have len: "length ?s = length scores" by simp
  have set_s: "set ?s = {0..<length scores}" by simp
  have dist: "distinct ?s" by simp
  have srt: "sorted (map ?f ?s)" by (rule sorted_sort_key)
  show "length idxs = k" using k by (simp add: idxs)
  show "distinct idxs" using dist by (simp add: idxs)
  show "set idxs \<subseteq> {0..<length scores}"
    using set_take_subset [of k ?s] set_s unfolding idxs by blast
  have "sorted (map ?f (take k ?s) @ map ?f (drop k ?s))"
    using srt by (simp flip: map_append)
  then have ord: "\<forall>x \<in> set (take k ?s). \<forall>y \<in> set (drop k ?s). ?f x \<le> ?f y"
    and srt_take: "sorted (map ?f (take k ?s))"
    by (auto simp: sorted_append)
  show "sorted (map ?f idxs)" using srt_take by (simp add: idxs)
  show "scores ! j \<le> scores ! i" if "i \<in> set idxs" "j < length scores" "j \<notin> set idxs" for i j
  proof -
    from that(2) set_s have "j \<in> set ?s" by simp
    then have "j \<in> set (take k ?s) \<union> set (drop k ?s)"
      by (simp only: set_append [symmetric] append_take_drop_id)
    with that(3) have "j \<in> set (drop k ?s)" by (simp add: idxs)
    with ord that(1) show ?thesis by (auto simp: idxs)
  qed
qed

lemma candidates_distinct:
  "distinct (candidates model train_items gt_items)"
  "set (candidates model train_items gt_items) = ({0..<num_items model} - train_items) \<union> set gt_items"
  by (simp_all add: candidates_def)

lemma user_metrics_Inr:
  assumes gt: "map_of test_ground_truth user = Some gt_items"
    and um: "user_metrics model item_emb test_ground_truth user_item_dict k u_emb user = Inr (recall, prec, ndcg)"
  shows "\<exists>ranked.
          length ranked = k \<and> distinct ranked
        \<and> set ranked \<subseteq> candidate_pool model user_item_dict user gt_items
        \<and> (\<forall>c \<in> candidate_pool model user_item_dict user gt_items - set ranked.
              \<forall>r \<in> set ranked. dot u_emb (item_emb ! c) \<le> dot u_emb (item_emb ! r))
        \<and> sorted (map (\<lambda>r. - dot u_emb (item_emb ! r)) ranked)
        \<and> recall_at_k ranked gt_items k = Inr recall
        \<and> precision_at_k ranked gt_items k = Inr prec
        \<and> ndcg_at_k ranked gt_items k = ndcg"
proof -
  define cands where "cands = candidates model (train_items_of user_item_dict user) gt_items"
  define pool where "pool = candidate_pool model user_item_dict user gt_items"
  have dc: "distinct cands" and sc: "set cands = pool"
    by (simp_all add: cands_def pool_def candidate_pool_def candidates_distinct)
  from um gt obtain rows idxs where
    rows: "index_rows item_emb cands = Inr rows"
    and idxs: "topk_indices (map (dot u_emb) rows) k = Inr idxs"
    and rec: "recall_at_k (map (\<lambda>i. cands ! i) idxs) gt_items k = Inr recall"
    and pre: "precision_at_k (map (\<lambda>i. cands ! i) idxs) gt_items k = Inr prec"
    and nd: "ndcg_at_k (map (\<lambda>i. cands ! i) idxs) gt_items k = ndcg"
    by (auto simp: user_metrics_def cands_def train_items_of_def Let_def split: sum.splits)
  from rows have rows_eq: "rows = map (\<lambda>c. item_emb ! c) cands"
    by (auto simp: index_rows_def split: if_splits)
  define scores where "scores = map (dot u_emb) rows"
  have ls: "length scores = length cands" by (simp add: scores_def rows_eq)
  have sc_nth: "scores ! i = dot u_emb (item_emb ! (cands ! i))" if "i < length cands" for i
    using that by (simp add: scores_def rows_eq)
  note t = topk_indices_Inr [OF idxs [folded scores_def]]
  have in_range: "i < length cands" if "i \<in> set idxs" for i
    using t(3) that ls by auto
  let ?ranked = "map (\<lambda>i. cands ! i) idxs"
  have 1: "length ?ranked = k" by (simp add: t(1))
  have 2: "distinct ?ranked"
  proof -
    have "inj_on (\<lambda>i. cands ! i) (set idxs)"
      using dc in_range by (auto simp: inj_on_def nth_eq_iff_index_eq)
    with t(2) show ?thesis by (simp add: distinct_map)
  qed
  have 3: "set ?ranked \<subseteq> pool"
    using in_range sc by auto
  have 4: "dot u_emb (item_emb ! c) \<le> dot u_emb (item_emb ! r)"
    if c: "c \<in> pool - set ?ranked" and r: "r \<in> set ?ranked" for c r
  proof -
    from c sc obtain j where j: "j < length cands" "cands ! j = c"
      by (auto simp: in_set_conv_nth)
    from c j have jn: "j \<notin> set idxs" by auto
    from r obtain i where i: "i \<in> set idxs" "r = cands ! i" by auto
    from t(4) [OF i(1) _ jn] j(1) ls have "scores ! j \<le> scores ! i" by simp
    then show ?thesis
      using sc_nth [OF j(1)] sc_nth [OF in_range [OF i(1)]] j(2) i(2) by simp
  qed
  have 5: "sorted (map (\<lambda>r. - dot u_emb (item_emb ! r)) ?ranked)"
  proof -
    have "map (\<lambda>r. - dot u_emb (item_emb ! r)) ?ranked = map (\<lambda>i. - scores ! i) idxs"
      using in_range by (simp add: sc_nth)
    with t(5) show ?thesis by (simp only:)
  qed
  from 1 2 3 4 5 rec pre nd show ?thesis
    unfolding pool_def by blast
qed

lemma eval_users_Inr:
  assumes "eval_users f ue us (rl, pl, nl) = Inr acc'"
  shows "\<exists>ms. list_all (\<lambda>u. u < length ue) us
            \<and> map (\<lambda>u. f (ue ! u) u) us = map Inr ms
            \<and> acc' = (rl @ map fst ms, pl @ map (\<lambda>m. fst (snd m)) ms, nl @ map (\<lambda>m. snd (snd m)) ms)"
  using assms
proof (induction us arbitrary: rl pl nl)
  case Nil
  then show ?case by simp
next
  case (Cons u us)
  from Cons.prems have u: "u < length ue"
    by (auto split: if_splits)
  with Cons.prems obtain r p n where
    fu: "f (ue ! u) u = Inr (r, p, n)"
    and rest: "eval_users f ue us (rl @ [r], pl @ [p], nl @ [n]) = Inr acc'"
    by (auto split: sum.splits)
  from Cons.IH [OF rest] obtain ms where
    ms: "list_all (\<lambda>u. u < length ue) us" "map (\<lambda>u. f (ue ! u) u) us = map Inr ms"
      "acc' = ((rl @ [r]) @ map fst ms, (pl @ [p]) @ map (\<lambda>m. fst (snd m)) ms,
               (nl @ [n]) @ map (\<lambda>m. snd (snd m)) ms)"
    by blast
  have "list_all (\<lambda>u. u < length ue) (u # us)
      \<and> map (\<lambda>u. f (ue ! u) u) (u # us) = map Inr ((r, p, n) # ms)
      \<and> acc' = (rl @ map fst ((r, p, n) # ms), pl @ map (\<lambda>m. fst (snd m)) ((r, p, n) # ms),
                nl @ map (\<lambda>m. snd (snd m)) ((r, p, n) # ms))"
    using u fu ms by simp
  then show ?case by blast
qed

text \<open>
  C6. When \<open>evaluate_model\<close> returns, its three aggregates are the means of
  \<open>user_metrics\<close> over the tested users, and for every tested user the metrics are those
  of a ranking of \<open>k\<close> distinct items that are the best-scored items of the user's
  candidate pool, all items but the user's training items together with the user's
  ground-truth items: no item of the pool outside the ranking scores higher than an item
  of the ranking. Every ground-truth item is in the pool, also one that is a training
  item. Neither the order of the candidate list nor the order among equal scores matters
  to the statement.
\<close>

theorem evaluate_model_ranks_candidate_pool:
  assumes "0 < batch_size"
    and "evaluate_model model test_ground_truth user_item_dict k batch_size = Inr result"
    and "distinct (map fst test_ground_truth)"
    and "(user, gt_items) \<in> set test_ground_truth"
  shows "set gt_items \<subseteq> candidate_pool model user_item_dict user gt_items
       \<and> (\<exists>ms. map (\<lambda>u. user_metrics model (snd (forward model)) test_ground_truth user_item_dict k
                          (fst (forward model) ! u) u) (map fst test_ground_truth) = map Inr ms
              \<and> result = (np_mean (map fst ms), np_mean (map (\<lambda>m. fst (snd m)) ms),
                          np_mean (map (\<lambda>m. snd (snd m)) ms)))
       \<and> (\<exists>ranked recall prec.
              length ranked = k \<and> distinct ranked
            \<and> set ranked \<subseteq> candidate_pool model user_item_dict user gt_items
            \<and> (\<forall>c \<in> candidate_pool model user_item_dict user gt_items - set ranked.
                  \<forall>r \<in> set ranked.
                    dot (fst (forward model) ! user) (snd (forward model) ! c)
                    \<le> dot (fst (forward model) ! user) (snd (forward model) ! r))
            \<and> sorted (map (\<lambda>r. - dot (fst (forward model) ! user) (snd (forward model) ! r)) ranked)
            \<and> recall_at_k ranked gt_items k = Inr recall
            \<and> precision_at_k ranked gt_items k = Inr prec
            \<and> user_metrics model (snd (forward model)) test_ground_truth user_item_dict k
                 (fst (forward model) ! user) user
               = Inr (recall, prec, ndcg_at_k ranked gt_items k))"
proof -
  let ?ue = "fst (forward model)" and ?ie = "snd (forward model)"
  let ?f = "user_metrics model ?ie test_ground_truth user_item_dict k"
  let ?users = "map fst test_ground_truth"
  from evaluate_model_by_users [OF assms(1), of model test_ground_truth user_item_dict k] assms(2)
  obtain acc' where ev: "eval_users ?f ?ue ?users ([], [], []) = Inr acc'"
    and res: "result = (case acc' of (rl, pl, nl) \<Rightarrow> (np_mean rl, np_mean pl, np_mean nl))"
    by (auto simp: returned_def split: sum.splits)
  from eval_users_Inr [OF ev] obtain ms where
    ms: "map (\<lambda>u. ?f (?ue ! u) u) ?users = map Inr ms"
    and acc': "acc' = (map fst ms, map (\<lambda>m. fst (snd m)) ms, map (\<lambda>m. snd (snd m)) ms)"
    by auto
  have agg: "\<exists>ms. map (\<lambda>u. ?f (?ue ! u) u) ?users = map Inr ms
              \<and> result = (np_mean (map fst ms), np_mean (map (\<lambda>m. fst (snd m)) ms),
                          np_mean (map (\<lambda>m. snd (snd m)) ms))"
    using ms res acc' by auto
  from assms(4) have "user \<in> set ?users" by force
  then have "?f (?ue ! user) user \<in> set (map (\<lambda>u. ?f (?ue ! u) u) ?users)"
    by (simp only: set_map) (rule imageI)
  with ms obtain m where m: "?f (?ue ! user) user = Inr m" by auto
  obtain recall prec ndcg where mt: "m = (recall, prec, ndcg)" by (cases m)
  have gt: "map_of test_ground_truth user = Some gt_items"
    using assms(3,4) by (rule map_of_is_SomeI)
  from user_metrics_Inr [OF gt m [unfolded mt]] obtain ranked where
    r: "length ranked = k" "distinct ranked"
      "set ranked \<subseteq> candidate_pool model user_item_dict user gt_items"
      "\<forall>c \<in> candidate_pool model user_item_dict user gt_items - set ranked.
              \<forall>r \<in> set ranked. dot (?ue ! user) (?ie ! c) \<le> dot (?ue ! user) (?ie ! r)"
      "sorted (map (\<lambda>r. - dot (?ue ! user) (?ie ! r)) ranked)"
      "recall_at_k ranked gt_items k = Inr recall"
      "precision_at_k ranked gt_items k = Inr prec"
      "ndcg_at_k ranked gt_items k = ndcg"
    by blast
  have um: "?f (?ue ! user) user = Inr (recall, prec, ndcg_at_k ranked gt_items k)"
    using m mt r(8) by simp
  have pool: "set gt_items \<subseteq> candidate_pool model user_item_dict user gt_items"
    by (simp add: candidate_pool_def)
  from r(1-7) um have "\<exists>ranked recall prec.
              length ranked = k \<and> distinct ranked
            \<and> set ranked \<subseteq> candidate_pool model user_item_dict user gt_items
            \<and> (\<forall>c \<in> candidate_pool model user_item_dict user gt_items - set ranked.
                  \<forall>r \<in> set ranked. dot (?ue ! user) (?ie ! c) \<le> dot (?ue ! user) (?ie ! r))
            \<and> sorted (map (\<lambda>r. - dot (?ue ! user) (?ie ! r)) ranked)
            \<and> recall_at_k ranked gt_items k = Inr recall
            \<and> precision_at_k ranked gt_items k = Inr prec
            \<and> ?f (?ue ! user) user = Inr (recall, prec, ndcg_at_k ranked gt_items k)"
    by blast
  with pool agg show ?thesis by blast
qed

lemma candidates_GT2: "candidates M1 {0, 1} [1] = [1]"
proof -
  have s: "{0..<num_items M1} - {0, 1} \<union> set [1] = {1}" by (auto simp: M1_def)
  show ?thesis unfolding candidates_def s by simp
qed

lemma user_metrics_GT2: "user_metrics M1 [[1], [3]] GT2 UID2 1 [1] 0 = Inr (1, 1, 1)"
  by (simp add: user_metrics_def GT2_def UID2_def candidates_GT2 index_rows_def
      topk_indices_def dot_def recall_at_k_def precision_at_k_def ndcg_at_k_def Let_def
      del: One_nat_def)

lemma evaluate_model_GT2: "evaluate_model M1 GT2 UID2 1 1 = Inr (Fin 1, Fin 1, Fin 1)"
proof -
  have u: "map fst GT2 = [0]" by (simp add: GT2_def)
  show ?thesis
    by (simp add: evaluate_model_def forward_M1 eval_batches.simps index_rows_def Let_def
        user_metrics_GT2 np_mean_def u enumerate_eq_zip upt_rec [of 0] upt_rec [of 1]
        del: One_nat_def)
qed

lemma candidate_pool_GT2: "candidate_pool M1 UID2 0 [1] = {1}"
  by (auto simp: candidate_pool_def train_items_of_def UID2_def M1_def)

theorem evaluate_model_ranks_candidate_pool_witness:
  "(0::int) < 1
   \<and> evaluate_model M1 GT2 UID2 1 1 = Inr (Fin 1, Fin 1, Fin 1)
   \<and> distinct (map fst GT2)
   \<and> (0, [1]) \<in> set GT2
   \<and> 1 \<in> train_items_of UID2 0
   \<and> candidate_pool M1 UID2 0 [1] = {1}
   \<and> set [1] \<subseteq> candidate_pool M1 UID2 0 [1]
   \<and> (\<exists>ranked recall prec.
          length ranked = 1 \<and> distinct ranked
        \<and> set ranked \<subseteq> candidate_pool M1 UID2 0 [1]
        \<and> recall_at_k ranked [1] 1 = Inr recall
        \<and> precision_at_k ranked [1] 1 = Inr prec
        \<and> user_metrics M1 (snd (forward M1)) GT2 UID2 1 (fst (forward M1) ! 0) 0
           = Inr (recall, prec, ndcg_at_k ranked [1] 1))"
proof -
  have 1: "(0::int) < 1" by simp
  have 3: "distinct (map fst GT2)" by (simp add: GT2_def)
  have 4: "(0, [1]) \<in> set GT2" by (simp add: GT2_def)
  have 5: "1 \<in> train_items_of UID2 0" by (simp add: train_items_of_def UID2_def)
  note t = evaluate_model_ranks_candidate_pool [OF 1 evaluate_model_GT2 3 4]
  from t have a: "set [1] \<subseteq> candidate_pool M1 UID2 0 [1]" by (rule conjunct1)
  from t [THEN conjunct2, THEN conjunct2] have b: "\<exists>ranked recall prec.
          length ranked = 1 \<and> distinct ranked
        \<and> set ranked \<subseteq> candidate_pool M1 UID2 0 [1]
        \<and> recall_at_k ranked [1] 1 = Inr recall
        \<and> precision_at_k ranked [1] 1 = Inr prec
        \<and> user_metrics M1 (snd (forward M1)) GT2 UID2 1 (fst (forward M1) ! 0) 0
           = Inr (recall, prec, ndcg_at_k ranked [1] 1)"
    by blast
  from 1 evaluate_model_GT2 3 4 5 candidate_pool_GT2 a b show ?thesis by blast
qed

end
